theory Spec2Isabelle
  imports Main "HOL-Library.Extended_Nat"
begin

section \<open>The write-ahead log of raiden/storage/wal.py\<close>

text \<open>
  The development embeds \<^verbatim>\<open>raiden/storage/wal.py\<close>. The state, the state changes
  and the events are opaque payloads: the type variables \<open>'s\<close>, \<open>'c\<close> and \<open>'e\<close>.
  Logging calls have no effect on any result and are left out; the \<open>node_address\<close>
  arguments, which are only logged, are kept in the signatures.
\<close>

subsection \<open>Errors\<close>

text \<open>
  Every way an operation of the module can fail is a value: the transition function
  rejecting a state change, the caller's own code raising inside a commit scope, the
  read of an attribute that was never assigned, and a failed \<^verbatim>\<open>assert\<close>.
\<close>

datatype error = TransitionFailure | CallerFailure | AttributeError | AssertionError

subsection \<open>Identifiers\<close>

text \<open>
  Modelled from the spec: the identifier types \<^verbatim>\<open>StateChangeID\<close> and \<^verbatim>\<open>EventID\<close> and
  the constants \<^verbatim>\<open>LOW_STATECHANGE_ULID\<close> and \<^verbatim>\<open>HIGH_STATECHANGE_ULID\<close> are imported
  from \<^verbatim>\<open>raiden.storage.sqlite\<close>. The spec describes totally ordered identifiers with
  two reserved sentinels, LOW preceding every real identifier and HIGH succeeding
  every real identifier. Extended naturals give exactly that: LOW is \<open>0\<close>, HIGH is
  \<open>\<infinity>\<close>, and a real identifier is \<open>enat (Suc n)\<close>.
\<close>

type_synonym StateChangeID = enat
type_synonym EventID = enat

text \<open>
  Modelled from the spec: \<^verbatim>\<open>LOW_STATECHANGE_ULID\<close>, the sentinel that precedes every
  real identifier.
\<close>

definition LOW_STATECHANGE_ULID :: StateChangeID where
  "LOW_STATECHANGE_ULID = 0"

text \<open>
  Modelled from the spec: \<^verbatim>\<open>HIGH_STATECHANGE_ULID\<close>, the sentinel that succeeds every
  real identifier.
\<close>

definition HIGH_STATECHANGE_ULID :: StateChangeID where
  "HIGH_STATECHANGE_ULID = \<infinity>"

text \<open>
  Modelled from the spec: the identifier factory \<^verbatim>\<open>_ulid_factory\<close> of the database.
  The spec requires \<open>next_id\<close> to return a value strictly greater than every
  identifier issued before for the same class. The factory's state is the number of
  identifiers it has issued; the next identifier is the successor of that count.
\<close>

definition ulid_new :: "nat \<Rightarrow> enat \<times> nat" where
  "ulid_new issued = (enat (Suc issued), Suc issued)"

text \<open>
  Modelled from the spec: a \<^verbatim>\<open>Range\<close> of identifiers is the pair of its two bounds.
\<close>

datatype Range = Range (range_first: StateChangeID) (range_last: StateChangeID)

subsection \<open>The durable store\<close>

text \<open>
  Modelled from the spec: a snapshot row as \<^verbatim>\<open>get_snapshot_before_state_change\<close>
  returns it, with the attributes \<^verbatim>\<open>restore_or_init_snapshot\<close> reads: the state, the
  identifier of the last state change folded into it, and the count of state changes.
\<close>

record 's SnapshotRecord =
  data :: 's
  state_change_identifier :: StateChangeID
  state_change_qty :: int

text \<open>
  Modelled from the spec: \<^verbatim>\<open>SerializedSQLiteStorage\<close> and the functions
  \<^verbatim>\<open>write_state_change\<close> and \<^verbatim>\<open>write_events\<close> live in \<^verbatim>\<open>raiden.storage.sqlite\<close>. The
  spec gives the store's contract: append-only tables of state changes, events and
  snapshots, queried by identifier range. Each table is the list of its rows in
  insertion order. The serializer round-trips exactly, so rows hold the payloads
  themselves. The two counters are the states of the identifier factories.
\<close>

record ('s, 'c, 'e) SerializedSQLiteStorage =
  state_changes :: "(StateChangeID \<times> 'c) list"
  state_events :: "(EventID \<times> StateChangeID \<times> 'e) list"
  snapshots :: "'s SnapshotRecord list"
  statechange_ulids_issued :: nat
  event_ulids_issued :: nat

text \<open>
  Modelled from the spec: \<^verbatim>\<open>get_snapshot_before_state_change\<close> finds the latest
  snapshot whose state change identifier is at most the given one, the latest being
  the one written most recently; absent when there is none.
\<close>

definition get_snapshot_before_state_change ::
  "('s, 'c, 'e) SerializedSQLiteStorage \<Rightarrow> StateChangeID \<Rightarrow> 's SnapshotRecord option" where
  "get_snapshot_before_state_change storage ident =
     (case rev (filter (\<lambda>sn. state_change_identifier sn \<le> ident) (snapshots storage)) of
        [] \<Rightarrow> None
      | sn # _ \<Rightarrow> Some sn)"

text \<open>
  Modelled from the spec: \<^verbatim>\<open>write_state_snapshot\<close> appends a snapshot row and never
  overwrites one.
\<close>

definition write_state_snapshot ::
  "('s, 'c, 'e) SerializedSQLiteStorage \<Rightarrow> 's \<Rightarrow> StateChangeID \<Rightarrow> int
     \<Rightarrow> ('s, 'c, 'e) SerializedSQLiteStorage" where
  "write_state_snapshot storage snapshot ident qty =
     storage\<lparr>snapshots := snapshots storage @
       [\<lparr>data = snapshot, state_change_identifier = ident, state_change_qty = qty\<rparr>]\<rparr>"

text \<open>
  Modelled from the spec: \<^verbatim>\<open>write_first_state_snapshot\<close> writes the snapshot at the
  LOW sentinel with count 0.
\<close>

definition write_first_state_snapshot ::
  "('s, 'c, 'e) SerializedSQLiteStorage \<Rightarrow> 's \<Rightarrow> ('s, 'c, 'e) SerializedSQLiteStorage" where
  "write_first_state_snapshot storage snapshot =
     write_state_snapshot storage snapshot LOW_STATECHANGE_ULID 0"

text \<open>
  Modelled from the spec: membership in a \<^verbatim>\<open>Range\<close> as the store reads it, lower bound
  exclusive and upper bound inclusive.
\<close>

definition in_range :: "Range \<Rightarrow> StateChangeID \<Rightarrow> bool" where
  "in_range r ident \<longleftrightarrow> range_first r < ident \<and> ident \<le> range_last r"

text \<open>
  Modelled from the spec: \<^verbatim>\<open>get_statechanges_by_range\<close> returns the state changes
  whose identifier lies in the range, in ascending identifier order.
\<close>

definition get_statechanges_by_range ::
  "('s, 'c, 'e) SerializedSQLiteStorage \<Rightarrow> Range \<Rightarrow> 'c list" where
  "get_statechanges_by_range storage r =
     map snd (sort_key fst (filter (\<lambda>row. in_range r (fst row)) (state_changes storage)))"

text \<open>
  Modelled from the spec: \<^verbatim>\<open>write_state_change\<close> takes a fresh identifier from the
  factory, appends the row and returns the identifier.
\<close>

definition write_state_change ::
  "('s, 'c, 'e) SerializedSQLiteStorage \<Rightarrow> 'c
     \<Rightarrow> StateChangeID \<times> ('s, 'c, 'e) SerializedSQLiteStorage" where
  "write_state_change storage state_change =
     (let (ident, issued) = ulid_new (statechange_ulids_issued storage)
      in (ident, storage\<lparr>state_changes := state_changes storage @ [(ident, state_change)],
                         statechange_ulids_issued := issued\<rparr>))"

text \<open>
  Modelled from the spec: \<^verbatim>\<open>write_events\<close> appends every event of the list under a
  fresh event identifier, each row carrying the identifier of the state change that
  produced the event, as the caller paired them.
\<close>

fun write_events ::
  "('s, 'c, 'e) SerializedSQLiteStorage \<Rightarrow> (StateChangeID \<times> 'e) list
     \<Rightarrow> ('s, 'c, 'e) SerializedSQLiteStorage" where
  "write_events storage [] = storage"
| "write_events storage ((source, event) # events) =
     (let (ident, issued) = ulid_new (event_ulids_issued storage)
      in write_events
           (storage\<lparr>state_events := state_events storage @ [(ident, source, event)],
                    event_ulids_issued := issued\<rparr>) events)"

subsection \<open>The state manager\<close>

text \<open>
  Modelled from the spec: \<^verbatim>\<open>StateManager\<close> lives in \<^verbatim>\<open>raiden.transfer.architecture\<close>.
  The spec's transition engine owns a transition function and a current state. The
  transition function maps a state and a state change to a new state and a list of
  events, or fails (\<open>None\<close>). The current state is optional, as the module's own tests
  for \<^verbatim>\<open>None\<close> on lines 236 and 252 show.
\<close>

record ('s, 'c, 'e) StateManager =
  state_transition :: "'s option \<Rightarrow> 'c \<Rightarrow> ('s \<times> 'e list) option"
  current_state :: "'s option"

text \<open>
  Modelled from the spec: \<^verbatim>\<open>StateManager.dispatch\<close> runs the transition function on
  the current state, replaces the current state by the returned one and yields the
  new state and the events; when the function fails the engine is left as it was.
\<close>

definition sm_dispatch ::
  "('s, 'c, 'e) StateManager \<Rightarrow> 'c \<Rightarrow> error + (('s \<times> 'e list) \<times> ('s, 'c, 'e) StateManager)" where
  "sm_dispatch sm state_change =
     (case state_transition sm (current_state sm) state_change of
        None \<Rightarrow> Inl TransitionFailure
      | Some (new_state, events) \<Rightarrow>
          Inr ((new_state, events), sm\<lparr>current_state := Some new_state\<rparr>))"

text \<open>
  Modelled from the spec: \<^verbatim>\<open>StateManager.copy\<close> gives an engine with the same
  transition function and an independent copy of the state, which for values is the
  value.
\<close>

definition sm_copy :: "('s, 'c, 'e) StateManager \<Rightarrow> ('s, 'c, 'e) StateManager" where
  "sm_copy sm = sm"

text \<open>
  Modelled from the spec: the constructor \<^verbatim>\<open>StateManager\<close> called with a list of
  state changes (lines 97 and 133) applies them in order to the given state; the
  events are dropped and the first failure ends the construction.
\<close>

fun sm_dispatch_all ::
  "('s, 'c, 'e) StateManager \<Rightarrow> 'c list \<Rightarrow> error + ('s, 'c, 'e) StateManager" where
  "sm_dispatch_all sm [] = Inr sm"
| "sm_dispatch_all sm (state_change # rest) =
     (case sm_dispatch sm state_change of
        Inl err \<Rightarrow> Inl err
      | Inr (_, sm') \<Rightarrow> sm_dispatch_all sm' rest)"

definition StateManager_init ::
  "('s option \<Rightarrow> 'c \<Rightarrow> ('s \<times> 'e list) option) \<Rightarrow> 's option \<Rightarrow> 'c list
     \<Rightarrow> error + ('s, 'c, 'e) StateManager" where
  "StateManager_init transition_function initial changes =
     sm_dispatch_all \<lparr>state_transition = transition_function, current_state = initial\<rparr>
       changes"

subsection \<open>Recovery: lines 41 to 135\<close>

text \<open>
  \<^verbatim>\<open>restore_or_init_snapshot\<close> (lines 41-72). The result is the returned triple and
  the storage after the call.
\<close>

definition restore_or_init_snapshot ::
  "('s, 'c, 'e) SerializedSQLiteStorage \<Rightarrow> string \<Rightarrow> 's
     \<Rightarrow> ('s \<times> StateChangeID \<times> int) \<times> ('s, 'c, 'e) SerializedSQLiteStorage" where
  "restore_or_init_snapshot storage node_address initial_state =
     (let ident = HIGH_STATECHANGE_ULID
      in case get_snapshot_before_state_change storage ident of
           Some snapshot \<Rightarrow>
             ((data snapshot, state_change_identifier snapshot, state_change_qty snapshot),
              storage)
         | None \<Rightarrow>
             ((initial_state, LOW_STATECHANGE_ULID, 0),
              write_first_state_snapshot storage initial_state))"

text \<open>
  \<^verbatim>\<open>replay_unapplied_state_changes\<close> (lines 75-99): the number of state changes fetched
  and the state of a state manager built from the snapshot and those state changes.
\<close>

definition replay_unapplied_state_changes ::
  "('s option \<Rightarrow> 'c \<Rightarrow> ('s \<times> 'e list) option) \<Rightarrow> ('s, 'c, 'e) SerializedSQLiteStorage
     \<Rightarrow> Range \<Rightarrow> string \<Rightarrow> 's \<Rightarrow> error + (int \<times> 's option)" where
  "replay_unapplied_state_changes transition_function storage
       unapplied_state_changes_range node_address state_snapshot =
     (let unapplied_state_changes =
            get_statechanges_by_range storage unapplied_state_changes_range
      in case StateManager_init transition_function (Some state_snapshot)
                unapplied_state_changes of
           Inl err \<Rightarrow> Inl err
         | Inr state_manager \<Rightarrow>
             Inr (int (length unapplied_state_changes), current_state state_manager))"

text \<open>
  \<^verbatim>\<open>restore_state\<close> (lines 102-135): \<open>Inr None\<close> is the Python \<^verbatim>\<open>None\<close> returned when
  no snapshot is found.
\<close>

definition restore_state ::
  "('s option \<Rightarrow> 'c \<Rightarrow> ('s \<times> 'e list) option) \<Rightarrow> ('s, 'c, 'e) SerializedSQLiteStorage
     \<Rightarrow> StateChangeID \<Rightarrow> string \<Rightarrow> error + 's option" where
  "restore_state transition_function storage ident node_address =
     (case get_snapshot_before_state_change storage ident of
        None \<Rightarrow> Inr None
      | Some snapshot \<Rightarrow>
          (let unapplied_state_changes =
                 get_statechanges_by_range storage
                   (Range (state_change_identifier snapshot) ident)
           in case StateManager_init transition_function (Some (data snapshot))
                     unapplied_state_changes of
                Inl err \<Rightarrow> Inl err
              | Inr state_manager \<Rightarrow> Inr (current_state state_manager)))"

subsection \<open>Transactions\<close>

text \<open>
  Modelled from the spec: \<^verbatim>\<open>database.transaction()\<close> opens a transaction that is
  committed when its block completes and rolled back when the block raises. A
  rollback removes every row written since the transaction was opened; the identifier
  factories live in memory and keep what they have issued, so that an identifier is
  never issued twice.
\<close>

definition transaction_rollback ::
  "('s, 'c, 'e) SerializedSQLiteStorage \<Rightarrow> ('s, 'c, 'e) SerializedSQLiteStorage
     \<Rightarrow> ('s, 'c, 'e) SerializedSQLiteStorage" where
  "transaction_rollback at_begin now =
     now\<lparr>state_changes := state_changes at_begin,
         state_events := state_events at_begin,
         snapshots := snapshots at_begin\<rparr>"

text \<open>
  Modelled from the spec: the commit that ends a transaction whose block completed.
\<close>

definition transaction_commit ::
  "('s, 'c, 'e) SerializedSQLiteStorage \<Rightarrow> ('s, 'c, 'e) SerializedSQLiteStorage" where
  "transaction_commit now = now"

subsection \<open>The write-ahead log: lines 138 to 261\<close>

text \<open>\<^verbatim>\<open>SavedState\<close> (lines 138-147).\<close>

record 's SavedState =
  state_change_id :: StateChangeID
  state :: 's

text \<open>
  \<^verbatim>\<open>_AtomicStateChangeDispatcher\<close> (lines 177-218). Its \<^verbatim>\<open>storage\<close> attribute is the
  storage object of the log itself: the dispatcher record carries that storage while
  the scope is open, and the log takes it back when the scope is left.
\<close>

record ('s, 'c, 'e) AtomicStateChangeDispatcher =
  disp_state_manager :: "('s, 'c, 'e) StateManager"
  disp_storage :: "('s, 'c, 'e) SerializedSQLiteStorage"
  last_state_change_id :: "StateChangeID option"

text \<open>
  \<^verbatim>\<open>WriteAheadLog\<close> (lines 160-171). The class only annotates \<^verbatim>\<open>saved_state\<close>; the
  constructor does not assign it, so the attribute is optional here and reading it
  while it is \<open>None\<close> is an \<open>AttributeError\<close>. The semaphore \<^verbatim>\<open>_lock\<close> is free
  whenever a call starts in a sequential run and is released on every way out of a
  call, so it is no part of the sequential state; the interleaved model below makes
  it explicit.
\<close>

record ('s, 'c, 'e) WriteAheadLog =
  wal_state_manager :: "('s, 'c, 'e) StateManager"
  wal_storage :: "('s, 'c, 'e) SerializedSQLiteStorage"
  saved_state :: "'s SavedState option"

definition WriteAheadLog_init ::
  "('s, 'c, 'e) StateManager \<Rightarrow> ('s, 'c, 'e) SerializedSQLiteStorage
     \<Rightarrow> ('s, 'c, 'e) WriteAheadLog" where
  "WriteAheadLog_init state_manager storage =
     \<lparr>wal_state_manager = state_manager, wal_storage = storage, saved_state = None\<rparr>"

text \<open>\<^verbatim>\<open>write_state_change_and_events\<close> (lines 197-218).\<close>

definition write_state_change_and_events ::
  "('s, 'c, 'e) SerializedSQLiteStorage \<Rightarrow> 'c \<Rightarrow> 'e list
     \<Rightarrow> StateChangeID \<times> ('s, 'c, 'e) SerializedSQLiteStorage" where
  "write_state_change_and_events storage state_change events =
     (let (ident, storage1) = write_state_change storage state_change;
          event_data = map (\<lambda>event. (ident, event)) events;
          storage2 = write_events storage1 event_data
      in (ident, storage2))"

text \<open>
  \<^verbatim>\<open>dispatch\<close> (lines 186-192). When the state manager raises, nothing has been
  written and the dispatcher is as it was.
\<close>

definition dispatch ::
  "('s, 'c, 'e) AtomicStateChangeDispatcher \<Rightarrow> 'c
     \<Rightarrow> error + ('e list \<times> ('s, 'c, 'e) AtomicStateChangeDispatcher)" where
  "dispatch self state_change =
     (case sm_dispatch (disp_state_manager self) state_change of
        Inl err \<Rightarrow> Inl err
      | Inr ((_, events), state_manager') \<Rightarrow>
          (let (ident, storage') =
                 write_state_change_and_events (disp_storage self) state_change events
           in Inr (events,
                   self\<lparr>disp_state_manager := state_manager',
                        disp_storage := storage',
                        last_state_change_id := Some ident\<rparr>)))"

text \<open>\<^verbatim>\<open>latest_state\<close> (lines 194-195).\<close>

definition latest_state :: "('s, 'c, 'e) AtomicStateChangeDispatcher \<Rightarrow> 's option" where
  "latest_state self = current_state (disp_state_manager self)"

text \<open>
  The body of the \<^verbatim>\<open>with\<close> block is the caller's code. It is given the dispatcher and
  nothing else of the log: it calls \<^verbatim>\<open>dispatch\<close> and \<^verbatim>\<open>latest_state\<close> any number of
  times, choosing what to do next from what they return, and it either finishes or
  raises. An exception raised by \<^verbatim>\<open>dispatch\<close> leaves the body.
\<close>

datatype ('s, 'c, 'e) scope_body =
    Done
  | Raise error
  | Dispatch 'c "'e list \<Rightarrow> ('s, 'c, 'e) scope_body"
  | LatestState "'s option \<Rightarrow> ('s, 'c, 'e) scope_body"

text \<open>
  Running a body against a dispatcher: the outcome (\<open>None\<close> for normal completion,
  the error otherwise) and the dispatcher at that point.
\<close>

primrec run_body ::
  "('s, 'c, 'e) scope_body \<Rightarrow> ('s, 'c, 'e) AtomicStateChangeDispatcher
     \<Rightarrow> error option \<times> ('s, 'c, 'e) AtomicStateChangeDispatcher" where
  "run_body Done dispatcher = (None, dispatcher)"
| "run_body (Raise err) dispatcher = (Some err, dispatcher)"
| "run_body (Dispatch state_change continue) dispatcher =
     (case dispatch dispatcher state_change of
        Inl err \<Rightarrow> (Some err, dispatcher)
      | Inr (events, dispatcher') \<Rightarrow> run_body (continue events) dispatcher')"
| "run_body (LatestState continue) dispatcher =
     run_body (continue (latest_state dispatcher)) dispatcher"

text \<open>
  The state changes a body has dispatched when it stops: those whose \<^verbatim>\<open>dispatch\<close>
  call returned, in order.
\<close>

primrec dispatched ::
  "('s, 'c, 'e) scope_body \<Rightarrow> ('s, 'c, 'e) AtomicStateChangeDispatcher \<Rightarrow> 'c list" where
  "dispatched Done dispatcher = []"
| "dispatched (Raise err) dispatcher = []"
| "dispatched (Dispatch state_change continue) dispatcher =
     (case dispatch dispatcher state_change of
        Inl err \<Rightarrow> []
      | Inr (events, dispatcher') \<Rightarrow> state_change # dispatched (continue events) dispatcher')"
| "dispatched (LatestState continue) dispatcher =
     dispatched (continue (latest_state dispatcher)) dispatcher"

text \<open>
  \<^verbatim>\<open>process_state_change_atomically\<close> (lines 173-239), applied to the body of its
  \<^verbatim>\<open>with\<close> block. The result is what the caller sees, \<open>None\<close> or the exception, and
  the log afterwards. \<open>scope_dispatcher\<close> is the dispatcher handed to the body, lines
  221-226.
\<close>

definition scope_dispatcher ::
  "('s, 'c, 'e) WriteAheadLog \<Rightarrow> ('s, 'c, 'e) AtomicStateChangeDispatcher" where
  "scope_dispatcher self =
     (let copied_state_manager = sm_copy (wal_state_manager self)
      in \<lparr>disp_state_manager = copied_state_manager,
          disp_storage = wal_storage self,
          last_state_change_id = None\<rparr>)"

definition scope_failed ::
  "('s, 'c, 'e) WriteAheadLog \<Rightarrow> ('s, 'c, 'e) SerializedSQLiteStorage
     \<Rightarrow> ('s, 'c, 'e) AtomicStateChangeDispatcher \<Rightarrow> ('s, 'c, 'e) WriteAheadLog" where
  "scope_failed self at_begin dispatcher =
     self\<lparr>wal_storage := transaction_rollback at_begin (disp_storage dispatcher)\<rparr>"

definition scope_completed ::
  "('s, 'c, 'e) WriteAheadLog \<Rightarrow> ('s, 'c, 'e) AtomicStateChangeDispatcher
     \<Rightarrow> error option \<times> ('s, 'c, 'e) WriteAheadLog" where
  "scope_completed self dispatcher =
     (let self1 = self\<lparr>wal_storage := transaction_commit (disp_storage dispatcher)\<rparr>;
          self2 = self1\<lparr>wal_state_manager := disp_state_manager dispatcher\<rparr>
      in case last_state_change_id dispatcher of
           None \<Rightarrow> (None, self2)
         | Some ident \<Rightarrow>
             (case current_state (wal_state_manager self2) of
                None \<Rightarrow> (Some AssertionError, self2)
              | Some current \<Rightarrow>
                  (None, self2\<lparr>saved_state :=
                     Some \<lparr>state_change_id = ident, state = current\<rparr>\<rparr>)))"

definition process_state_change_atomically ::
  "('s, 'c, 'e) WriteAheadLog \<Rightarrow> ('s, 'c, 'e) scope_body
     \<Rightarrow> error option \<times> ('s, 'c, 'e) WriteAheadLog" where
  "process_state_change_atomically self body =
     (case run_body body (scope_dispatcher self) of
        (Some err, dispatcher) \<Rightarrow> (Some err, scope_failed self (wal_storage self) dispatcher)
      | (None, dispatcher) \<Rightarrow> scope_completed self dispatcher)"

text \<open>
  Modelled from the spec: the truth value of an identifier in \<^verbatim>\<open>if state_change_id\<close>
  (line 252). Identifiers are opaque ordered values of a class of
  \<^verbatim>\<open>raiden.storage\<close>; an object that defines no truth value of its own is true.
\<close>

definition ulid_truthy :: "StateChangeID \<Rightarrow> bool" where
  "ulid_truthy ident = True"

text \<open>\<^verbatim>\<open>snapshot\<close> (lines 241-253).\<close>

definition snapshot ::
  "('s, 'c, 'e) WriteAheadLog \<Rightarrow> int \<Rightarrow> error option \<times> ('s, 'c, 'e) WriteAheadLog" where
  "snapshot self statechange_qty =
     (let current = current_state (wal_state_manager self)
      in case saved_state self of
           None \<Rightarrow> (Some AttributeError, self)
         | Some saved \<Rightarrow>
             (let ident = state_change_id saved
              in case (ulid_truthy ident, current) of
                   (True, Some current') \<Rightarrow>
                     (None, self\<lparr>wal_storage :=
                        write_state_snapshot (wal_storage self) current' ident
                          statechange_qty\<rparr>)
                 | _ \<Rightarrow> (None, self)))"

text \<open>\<^verbatim>\<open>get_current_state\<close> (lines 255-257).\<close>

definition get_current_state :: "('s, 'c, 'e) WriteAheadLog \<Rightarrow> 's option" where
  "get_current_state self = current_state (wal_state_manager self)"

text \<open>
  A caller's sequence of calls on one log. A call that raises leaves the log as the
  call left it, and the caller goes on.
\<close>

datatype ('s, 'c, 'e) wal_call = Scope "('s, 'c, 'e) scope_body" | Snapshot int

fun run_calls ::
  "('s, 'c, 'e) WriteAheadLog \<Rightarrow> ('s, 'c, 'e) wal_call list \<Rightarrow> ('s, 'c, 'e) WriteAheadLog" where
  "run_calls self [] = self"
| "run_calls self (Scope body # calls) =
     run_calls (snd (process_state_change_atomically self body)) calls"
| "run_calls self (Snapshot statechange_qty # calls) =
     run_calls (snd (snapshot self statechange_qty)) calls"

subsection \<open>Replay as the spec words it\<close>

text \<open>
  The spec's reading of a replay: the state changes are folded into the state with the
  transition function, in the order given, and the events are dropped. This definition
  follows the spec, not the code; \<open>restore_state\<close> is compared with it below.
\<close>

fun fold_state_changes ::
  "('s option \<Rightarrow> 'c \<Rightarrow> ('s \<times> 'e list) option) \<Rightarrow> 's \<Rightarrow> 'c list \<Rightarrow> error + 's" where
  "fold_state_changes transition_function s [] = Inr s"
| "fold_state_changes transition_function s (state_change # rest) =
     (case transition_function (Some s) state_change of
        None \<Rightarrow> Inl TransitionFailure
      | Some (s', events) \<Rightarrow> fold_state_changes transition_function s' rest)"

subsection \<open>Interleaved callers\<close>

text \<open>
  Several tasks call \<^verbatim>\<open>process_state_change_atomically\<close> on one log. The semaphore
  \<^verbatim>\<open>_lock\<close> of line 171 is a flag of the system, and \<^verbatim>\<open>with self._lock\<close> (line 220)
  waits while it is set. A task is waiting at line 220 with the body it is going to
  run, or inside the \<^verbatim>\<open>with\<close> blocks with its dispatcher, the rest of its body and the
  storage as it was when the transaction was opened, or it has returned. The log and
  its storage are shared: a task in a scope reads and writes the storage of the log,
  which its dispatcher's \<^verbatim>\<open>storage\<close> attribute refers to.
\<close>

datatype ('s, 'c, 'e) task =
    Waiting "('s, 'c, 'e) scope_body"
  | InScope "('s, 'c, 'e) AtomicStateChangeDispatcher" "('s, 'c, 'e) scope_body"
      "('s, 'c, 'e) SerializedSQLiteStorage"
  | Returned "error option"

record ('s, 'c, 'e) system =
  wal :: "('s, 'c, 'e) WriteAheadLog"
  lock_held :: bool
  tasks :: "nat \<Rightarrow> ('s, 'c, 'e) task"

fun in_scope :: "('s, 'c, 'e) task \<Rightarrow> bool" where
  "in_scope (InScope dispatcher body at_begin) = True"
| "in_scope (Waiting body) = False"
| "in_scope (Returned outcome) = False"

fun returned :: "('s, 'c, 'e) task \<Rightarrow> bool" where
  "returned (Returned outcome) = True"
| "returned (Waiting body) = False"
| "returned (InScope dispatcher body at_begin) = False"

text \<open>Every task starts out waiting to open the scope with its body.\<close>

definition start_system ::
  "('s, 'c, 'e) WriteAheadLog \<Rightarrow> (nat \<Rightarrow> ('s, 'c, 'e) scope_body) \<Rightarrow> ('s, 'c, 'e) system" where
  "start_system self bodies =
     \<lparr>wal = self, lock_held = False, tasks = (\<lambda>i. Waiting (bodies i))\<rparr>"

text \<open>
  Lines 220-226: a waiting task stays where it is while the semaphore is taken;
  otherwise it takes the semaphore, copies the state manager, opens the transaction
  and gets its dispatcher.
\<close>

definition enter_scope ::
  "('s, 'c, 'e) system \<Rightarrow> nat \<Rightarrow> ('s, 'c, 'e) scope_body \<Rightarrow> ('s, 'c, 'e) system" where
  "enter_scope sys i body =
     (if lock_held sys then sys
      else sys\<lparr>lock_held := True,
               tasks := (tasks sys)(i := InScope (scope_dispatcher (wal sys)) body
                 (wal_storage (wal sys)))\<rparr>)"

text \<open>
  The end of the \<^verbatim>\<open>with\<close> blocks, by completion or by an exception: the log is
  what the scope leaves, the semaphore is released and the task has returned.
\<close>

definition leave_scope ::
  "('s, 'c, 'e) system \<Rightarrow> nat \<Rightarrow> error option \<times> ('s, 'c, 'e) WriteAheadLog
     \<Rightarrow> ('s, 'c, 'e) system" where
  "leave_scope sys i result =
     sys\<lparr>wal := snd result, lock_held := False,
         tasks := (tasks sys)(i := Returned (fst result))\<rparr>"

text \<open>
  One step of a task inside its scope: the next call its body makes on the
  dispatcher, or the way out of the scope.
\<close>

definition scope_step ::
  "('s, 'c, 'e) system \<Rightarrow> nat \<Rightarrow> ('s, 'c, 'e) AtomicStateChangeDispatcher
     \<Rightarrow> ('s, 'c, 'e) scope_body \<Rightarrow> ('s, 'c, 'e) SerializedSQLiteStorage
     \<Rightarrow> ('s, 'c, 'e) system" where
  "scope_step sys i dispatcher body at_begin =
     (let here = dispatcher\<lparr>disp_storage := wal_storage (wal sys)\<rparr>
      in case body of
           Done \<Rightarrow> leave_scope sys i (scope_completed (wal sys) here)
         | Raise err \<Rightarrow> leave_scope sys i (Some err, scope_failed (wal sys) at_begin here)
         | Dispatch state_change continue \<Rightarrow>
             (case dispatch here state_change of
                Inl err \<Rightarrow>
                  leave_scope sys i (Some err, scope_failed (wal sys) at_begin here)
              | Inr (events, dispatcher') \<Rightarrow>
                  sys\<lparr>wal := (wal sys)\<lparr>wal_storage := disp_storage dispatcher'\<rparr>,
                      tasks := (tasks sys)(i := InScope dispatcher' (continue events)
                        at_begin)\<rparr>)
         | LatestState continue \<Rightarrow>
             sys\<lparr>tasks := (tasks sys)(i := InScope dispatcher
               (continue (latest_state here)) at_begin)\<rparr>)"

text \<open>
  A turn of task \<open>i\<close>, and a schedule: the list of the tasks whose turn it is, one
  after the other.
\<close>

definition task_step :: "('s, 'c, 'e) system \<Rightarrow> nat \<Rightarrow> ('s, 'c, 'e) system" where
  "task_step sys i =
     (case tasks sys i of
        Waiting body \<Rightarrow> enter_scope sys i body
      | InScope dispatcher body at_begin \<Rightarrow> scope_step sys i dispatcher body at_begin
      | Returned outcome \<Rightarrow> sys)"

definition run_schedule :: "('s, 'c, 'e) system \<Rightarrow> nat list \<Rightarrow> ('s, 'c, 'e) system" where
  "run_schedule sys schedule = foldl task_step sys schedule"

text \<open>
  The identifiers of the stored state changes increase strictly along the table, and
  each of them has been issued by the factory.
\<close>

definition ordered_store :: "('s, 'c, 'e) SerializedSQLiteStorage \<Rightarrow> bool" where
  "ordered_store storage \<longleftrightarrow>
     sorted_wrt (<) (map fst (state_changes storage)) \<and>
     list_all (\<lambda>row. fst row \<le> enat (statechange_ulids_issued storage))
       (state_changes storage)"

text \<open>
  The log that the scopes of the tasks \<open>order\<close> leave when they run one after the
  other, and the invariant of the interleaved system: the tasks that have returned are
  those of \<open>order\<close>; a task in a scope holds the semaphore, is alone in a scope, has
  changed nothing of the log but its storage, and the rest of its body run from here
  ends as its whole body run on the serial log does; and with the semaphore free the
  log is the serial log.
\<close>

definition serial_base ::
  "('s, 'c, 'e) WriteAheadLog \<Rightarrow> (nat \<Rightarrow> ('s, 'c, 'e) scope_body) \<Rightarrow> nat list
     \<Rightarrow> ('s, 'c, 'e) WriteAheadLog" where
  "serial_base self bodies order = run_calls self (map (\<lambda>i. Scope (bodies i)) order)"

definition serial_inv ::
  "('s, 'c, 'e) WriteAheadLog \<Rightarrow> (nat \<Rightarrow> ('s, 'c, 'e) scope_body) \<Rightarrow> ('s, 'c, 'e) system
     \<Rightarrow> nat list \<Rightarrow> bool" where
  "serial_inv self bodies sys order \<longleftrightarrow>
     distinct order \<and>
     (\<forall>i. i \<in> set order \<longleftrightarrow> returned (tasks sys i)) \<and>
     ordered_store (wal_storage (wal sys)) \<and>
     (\<forall>i body. tasks sys i = Waiting body \<longrightarrow> body = bodies i) \<and>
     (\<forall>i dispatcher rest at_begin. tasks sys i = InScope dispatcher rest at_begin \<longrightarrow>
        lock_held sys \<and>
        at_begin = wal_storage (serial_base self bodies order) \<and>
        ordered_store at_begin \<and>
        statechange_ulids_issued at_begin \<le> statechange_ulids_issued (wal_storage (wal sys)) \<and>
        wal sys = (serial_base self bodies order)\<lparr>wal_storage := wal_storage (wal sys)\<rparr> \<and>
        run_body rest (dispatcher\<lparr>disp_storage := wal_storage (wal sys)\<rparr>) =
          run_body (bodies i) (scope_dispatcher (serial_base self bodies order)) \<and>
        (\<forall>j. j \<noteq> i \<longrightarrow> \<not> in_scope (tasks sys j))) \<and>
     (\<not> lock_held sys \<longrightarrow>
        wal sys = serial_base self bodies order \<and> (\<forall>i. \<not> in_scope (tasks sys i)))"

subsection \<open>The saved state and the state manager\<close>

text \<open>
  The saved state, once assigned, holds the state the state manager is in.
\<close>

definition saved_in_step :: "('s, 'c, 'e) WriteAheadLog \<Rightarrow> bool" where
  "saved_in_step self =
     (case saved_state self of
        None \<Rightarrow> True
      | Some saved \<Rightarrow> current_state (wal_state_manager self) = Some (state saved))"

subsection \<open>A small state machine to run the definitions on\<close>

text \<open>
  A counter: the state change \<open>n > 0\<close> adds \<open>n\<close> to the state and emits the event
  \<open>n\<close>; the state change \<open>0\<close> is rejected.
\<close>

definition demo_transition :: "nat option \<Rightarrow> nat \<Rightarrow> (nat \<times> nat list) option" where
  "demo_transition s n =
     (if n = 0 then None else Some ((case s of None \<Rightarrow> 0 | Some m \<Rightarrow> m) + n, [n]))"

definition demo_storage :: "(nat, nat, nat) SerializedSQLiteStorage" where
  "demo_storage = \<lparr>state_changes = [], state_events = [], snapshots = [],
     statechange_ulids_issued = 0, event_ulids_issued = 0\<rparr>"

definition demo_snapshot :: "nat SnapshotRecord" where
  "demo_snapshot = \<lparr>data = 11, state_change_identifier = enat 2, state_change_qty = 2\<rparr>"

definition demo_history :: "(nat, nat, nat) SerializedSQLiteStorage" where
  "demo_history = \<lparr>state_changes = [(enat 1, 4), (enat 2, 7), (enat 3, 9), (enat 4, 1)],
     state_events = [], snapshots = [demo_snapshot],
     statechange_ulids_issued = 4, event_ulids_issued = 0\<rparr>"

definition demo_log :: "(nat, nat, nat) WriteAheadLog" where
  "demo_log = WriteAheadLog_init
     \<lparr>state_transition = demo_transition, current_state = None\<rparr> demo_storage"

definition demo_dispatcher :: "(nat, nat, nat) AtomicStateChangeDispatcher" where
  "demo_dispatcher = scope_dispatcher demo_log"

text \<open>The body that dispatches the state changes of a list and finishes.\<close>

primrec dispatch_all :: "'c list \<Rightarrow> ('s, 'c, 'e) scope_body" where
  "dispatch_all [] = Done"
| "dispatch_all (state_change # rest) = Dispatch state_change (\<lambda>events. dispatch_all rest)"

text \<open>
  The dispatcher after the state changes 5 and 2 on a new log, two calls on a log, and
  three tasks with the turns they take.
\<close>

definition demo_committed :: "(nat, nat, nat) AtomicStateChangeDispatcher" where
  "demo_committed =
     \<lparr>disp_state_manager = \<lparr>state_transition = demo_transition, current_state = Some 7\<rparr>,
      disp_storage = \<lparr>state_changes = [(enat 1, 5), (enat 2, 2)],
        state_events = [(enat 1, enat 1, 5), (enat 2, enat 2, 2)], snapshots = [],
        statechange_ulids_issued = 2, event_ulids_issued = 2\<rparr>,
      last_state_change_id = Some (enat 2)\<rparr>"

definition demo_calls :: "(nat, nat, nat) wal_call list" where
  "demo_calls = [Scope (dispatch_all [5, 0]), Scope (dispatch_all [5, 2]), Scope Done]"

definition demo_bodies :: "nat \<Rightarrow> (nat, nat, nat) scope_body" where
  "demo_bodies i =
     (if i = 0 then dispatch_all [5, 2] else if i = 1 then dispatch_all [3, 0]
      else dispatch_all [4])"

definition demo_turns :: "nat list" where
  "demo_turns = [1, 0, 2, 1, 0, 1, 1, 2, 0, 0, 2, 0, 2, 0, 0, 2, 0, 0]"

lemmas demo_defs =
  demo_transition_def demo_storage_def demo_snapshot_def demo_history_def demo_log_def
  demo_dispatcher_def WriteAheadLog_init_def scope_dispatcher_def sm_copy_def
  dispatch_def sm_dispatch_def write_state_change_and_events_def write_state_change_def
  ulid_new_def latest_state_def process_state_change_atomically_def scope_failed_def
  scope_completed_def transaction_rollback_def transaction_commit_def snapshot_def
  ulid_truthy_def write_state_snapshot_def write_first_state_snapshot_def
  LOW_STATECHANGE_ULID_def HIGH_STATECHANGE_ULID_def

lemmas system_defs = run_schedule_def start_system_def task_step_def enter_scope_def
  scope_step_def leave_scope_def

section \<open>Properties\<close>

subsection \<open>The store\<close>

lemma le_HIGH_STATECHANGE_ULID: "ident \<le> HIGH_STATECHANGE_ULID"
  by (simp add: HIGH_STATECHANGE_ULID_def)

lemma get_snapshot_HIGH:
  "get_snapshot_before_state_change storage HIGH_STATECHANGE_ULID =
     (case rev (snapshots storage) of [] \<Rightarrow> None | sn # _ \<Rightarrow> Some sn)"
  by (simp add: get_snapshot_before_state_change_def le_HIGH_STATECHANGE_ULID)

lemma get_snapshot_none:
  "\<forall>sn \<in> set (snapshots storage). \<not> state_change_identifier sn \<le> ident \<Longrightarrow>
     get_snapshot_before_state_change storage ident = None"
  by (simp add: get_snapshot_before_state_change_def filter_empty_conv)

lemma get_snapshot_latest:
  "snapshots storage = earlier @ found # later \<Longrightarrow>
   state_change_identifier found \<le> ident \<Longrightarrow>
   \<forall>sn \<in> set later. \<not> state_change_identifier sn \<le> ident \<Longrightarrow>
     get_snapshot_before_state_change storage ident = Some found"
  by (simp add: get_snapshot_before_state_change_def filter_empty_conv)

lemma get_statechanges_by_range_sorted:
  "get_statechanges_by_range storage (Range lo hi) =
     map snd (filter (\<lambda>(i, c). lo < i \<and> i \<le> hi) (sort_key fst (state_changes storage)))"
  by (simp add: get_statechanges_by_range_def in_range_def filter_sort case_prod_unfold)

lemma write_events_tables:
  "state_changes (write_events storage event_data) = state_changes storage \<and>
   snapshots (write_events storage event_data) = snapshots storage \<and>
   statechange_ulids_issued (write_events storage event_data) =
     statechange_ulids_issued storage \<and>
   map snd (state_events (write_events storage event_data)) =
     map snd (state_events storage) @ event_data \<and>
   event_ulids_issued (write_events storage event_data) =
     event_ulids_issued storage + length event_data"
  by (induction storage event_data rule: write_events.induct) (simp_all add: ulid_new_def)

lemma write_state_change_and_events_eq:
  "write_state_change_and_events storage state_change events = (ident, storage') \<Longrightarrow>
     ident = enat (Suc (statechange_ulids_issued storage)) \<and>
     state_changes storage' = state_changes storage @ [(ident, state_change)] \<and>
     map snd (state_events storage') =
       map snd (state_events storage) @ map (\<lambda>event. (ident, event)) events \<and>
     snapshots storage' = snapshots storage \<and>
     statechange_ulids_issued storage' = Suc (statechange_ulids_issued storage) \<and>
     event_ulids_issued storage' = event_ulids_issued storage + length events"
  by (auto simp add: write_state_change_and_events_def write_state_change_def ulid_new_def
      write_events_tables Let_def)

lemma sm_dispatch_all_fold:
  "sm_dispatch_all \<lparr>state_transition = tf, current_state = Some s\<rparr> changes =
     (case fold_state_changes tf s changes of
        Inl err \<Rightarrow> Inl err
      | Inr s' \<Rightarrow> Inr \<lparr>state_transition = tf, current_state = Some s'\<rparr>)"
  by (induction changes arbitrary: s) (auto simp add: sm_dispatch_def split: option.splits)

subsection \<open>Recovery\<close>

text \<open>
  C4. When the storage holds a snapshot, \<open>restore_or_init_snapshot\<close> returns the data,
  the state change identifier and the count of the latest one and leaves the storage as
  it is. When the storage holds no snapshot, it returns the initial state with the LOW
  identifier and count 0, and the storage afterwards holds exactly one snapshot, the
  initial state at LOW with count 0.
\<close>

theorem restore_or_init_snapshot_latest_or_first:
  "(snapshots storage \<noteq> [] \<longrightarrow>
      restore_or_init_snapshot storage node_address initial_state =
        ((data (last (snapshots storage)),
          state_change_identifier (last (snapshots storage)),
          state_change_qty (last (snapshots storage))), storage)) \<and>
   (snapshots storage = [] \<longrightarrow>
      restore_or_init_snapshot storage node_address initial_state =
        ((initial_state, LOW_STATECHANGE_ULID, 0),
         storage\<lparr>snapshots :=
           [\<lparr>data = initial_state, state_change_identifier = LOW_STATECHANGE_ULID,
             state_change_qty = 0\<rparr>]\<rparr>))"
proof (cases "snapshots storage" rule: rev_cases)
  case Nil
  then show ?thesis
    by (simp add: restore_or_init_snapshot_def get_snapshot_HIGH
        write_first_state_snapshot_def write_state_snapshot_def)
next
  case (snoc ys y)
  then show ?thesis
    by (simp add: restore_or_init_snapshot_def get_snapshot_HIGH)
qed

theorem restore_or_init_snapshot_latest_or_first_witness:
  "snapshots demo_history \<noteq> [] \<and>
   restore_or_init_snapshot demo_history ''node'' 5 = ((11, enat 2, 2), demo_history) \<and>
   snapshots demo_storage = [] \<and>
   restore_or_init_snapshot demo_storage ''node'' 5 =
     ((5, 0, 0), demo_storage\<lparr>snapshots :=
        [\<lparr>data = 5, state_change_identifier = 0, state_change_qty = 0\<rparr>]\<rparr>)"
proof -
  have found: "snapshots demo_history \<noteq> []"
    by (simp add: demo_history_def)
  have none: "snapshots demo_storage = []"
    by (simp add: demo_storage_def)
  from restore_or_init_snapshot_latest_or_first [of demo_history "''node''" 5] found
  have "restore_or_init_snapshot demo_history ''node'' 5 = ((11, enat 2, 2), demo_history)"
    by (simp add: demo_history_def demo_snapshot_def)
  moreover
  from restore_or_init_snapshot_latest_or_first [of demo_storage "''node''" 5] none
  have "restore_or_init_snapshot demo_storage ''node'' 5 =
     ((5, 0, 0), demo_storage\<lparr>snapshots :=
        [\<lparr>data = 5, state_change_identifier = 0, state_change_qty = 0\<rparr>]\<rparr>)"
    by (simp add: LOW_STATECHANGE_ULID_def)
  ultimately show ?thesis
    using found none by simp
qed

text \<open>
  C9. A second call of \<open>restore_or_init_snapshot\<close>, on the storage the first call
  left, returns the triple the first call returned and leaves that storage as it is:
  no second initial snapshot is written, whatever initial state the second call is
  given.
\<close>

theorem restore_or_init_snapshot_twice:
  "restore_or_init_snapshot
     (snd (restore_or_init_snapshot storage node_address initial_state))
     node_address' initial_state' =
   restore_or_init_snapshot storage node_address initial_state"
proof (cases "snapshots storage" rule: rev_cases)
  case Nil
  then show ?thesis
    by (simp add: restore_or_init_snapshot_def get_snapshot_HIGH
        write_first_state_snapshot_def write_state_snapshot_def)
next
  case (snoc ys y)
  then show ?thesis
    by (simp add: restore_or_init_snapshot_def get_snapshot_HIGH)
qed

text \<open>
  C7. When no persisted state change has its identifier in the range,
  \<open>replay_unapplied_state_changes\<close> returns the count 0 and the snapshot state as it
  was given.
\<close>

theorem replay_unapplied_state_changes_empty_range:
  assumes "\<forall>row \<in> set (state_changes storage). \<not> in_range r (fst row)"
  shows "replay_unapplied_state_changes transition_function storage r node_address
           state_snapshot = Inr (0, Some state_snapshot)"
proof -
  have "filter (\<lambda>row. in_range r (fst row)) (state_changes storage) = []"
    using assms by (simp add: filter_empty_conv)
  then show ?thesis
    by (simp add: replay_unapplied_state_changes_def get_statechanges_by_range_def
        StateManager_init_def)
qed

theorem replay_unapplied_state_changes_empty_range_witness:
  "list_all (\<lambda>row. \<not> in_range (Range (enat 4) \<infinity>) (fst row)) (state_changes demo_history) \<and>
   replay_unapplied_state_changes demo_transition demo_history (Range (enat 4) \<infinity>)
     ''node'' 21 = Inr (0, Some 21)"
proof -
  have empty: "\<forall>row \<in> set (state_changes demo_history).
      \<not> in_range (Range (enat 4) \<infinity>) (fst row)"
    by (simp add: demo_history_def in_range_def)
  from replay_unapplied_state_changes_empty_range [OF empty] empty
  show ?thesis by (simp add: list_all_iff)
qed

text \<open>
  C5. \<open>restore_state\<close> returns \<open>None\<close> when no snapshot has a state change identifier
  at most the given one. Otherwise, with the latest such snapshot, it returns the state
  obtained by folding into the snapshot's state, in ascending identifier order, the
  state changes whose identifier is above the snapshot's and at most the given one; a
  state change the transition function rejects makes the call fail.
\<close>

theorem restore_state_replays_from_snapshot:
  "((\<forall>sn \<in> set (snapshots storage). \<not> state_change_identifier sn \<le> ident) \<longrightarrow>
      restore_state transition_function storage ident node_address = Inr None) \<and>
   (\<forall>earlier found later.
      snapshots storage = earlier @ found # later \<and>
      state_change_identifier found \<le> ident \<and>
      (\<forall>sn \<in> set later. \<not> state_change_identifier sn \<le> ident) \<longrightarrow>
      restore_state transition_function storage ident node_address =
        (case fold_state_changes transition_function (data found)
                (map snd (filter (\<lambda>(i, c). state_change_identifier found < i \<and> i \<le> ident)
                   (sort_key fst (state_changes storage)))) of
           Inl err \<Rightarrow> Inl err
         | Inr s \<Rightarrow> Inr (Some s)))"
proof (intro conjI impI allI)
  assume "\<forall>sn \<in> set (snapshots storage). \<not> state_change_identifier sn \<le> ident"
  then show "restore_state transition_function storage ident node_address = Inr None"
    by (simp add: restore_state_def get_snapshot_none)
next
  fix earlier found later
  assume "snapshots storage = earlier @ found # later \<and>
      state_change_identifier found \<le> ident \<and>
      (\<forall>sn \<in> set later. \<not> state_change_identifier sn \<le> ident)"
  then have "get_snapshot_before_state_change storage ident = Some found"
    by (simp add: get_snapshot_latest)
  then show "restore_state transition_function storage ident node_address =
        (case fold_state_changes transition_function (data found)
                (map snd (filter (\<lambda>(i, c). state_change_identifier found < i \<and> i \<le> ident)
                   (sort_key fst (state_changes storage)))) of
           Inl err \<Rightarrow> Inl err
         | Inr s \<Rightarrow> Inr (Some s))"
    by (simp add: restore_state_def StateManager_init_def sm_dispatch_all_fold
        get_statechanges_by_range_sorted split: sum.splits)
qed

theorem restore_state_replays_from_snapshot_witness:
  "list_all (\<lambda>sn. \<not> state_change_identifier sn \<le> enat 1) (snapshots demo_history) \<and>
   restore_state demo_transition demo_history (enat 1) ''node'' = Inr None \<and>
   snapshots demo_history = [] @ demo_snapshot # [] \<and>
   state_change_identifier demo_snapshot \<le> \<infinity> \<and>
   restore_state demo_transition demo_history \<infinity> ''node'' = Inr (Some 21)"
proof -
  have none: "\<forall>sn \<in> set (snapshots demo_history). \<not> state_change_identifier sn \<le> enat 1"
    by (simp add: demo_history_def demo_snapshot_def)
  have found: "snapshots demo_history = [] @ demo_snapshot # [] \<and>
      state_change_identifier demo_snapshot \<le> \<infinity> \<and>
      (\<forall>sn \<in> set []. \<not> state_change_identifier sn \<le> \<infinity>)"
    by (simp add: demo_history_def)
  have changes: "map snd (filter (\<lambda>(i, c). state_change_identifier demo_snapshot < i \<and> i \<le> \<infinity>)
      (sort_key fst (state_changes demo_history))) = [9, 1]"
    by (simp add: demo_history_def demo_snapshot_def)
  from restore_state_replays_from_snapshot [of demo_history "enat 1" demo_transition "''node''"]
    none
  have a: "restore_state demo_transition demo_history (enat 1) ''node'' = Inr None"
    by blast
  from restore_state_replays_from_snapshot [of demo_history "\<infinity>" demo_transition "''node''"]
    found
  have "restore_state demo_transition demo_history \<infinity> ''node'' =
      (case fold_state_changes demo_transition (data demo_snapshot)
                (map snd (filter (\<lambda>(i, c). state_change_identifier demo_snapshot < i \<and> i \<le> \<infinity>)
                   (sort_key fst (state_changes demo_history)))) of
           Inl err \<Rightarrow> Inl err
         | Inr s \<Rightarrow> Inr (Some s))"
    by blast
  then have b: "restore_state demo_transition demo_history \<infinity> ''node'' = Inr (Some 21)"
    unfolding changes by (simp add: demo_snapshot_def demo_transition_def)
  from a b none found show ?thesis
    by (simp add: list_all_iff)
qed

subsection \<open>The dispatcher\<close>

lemma dispatch_Inr:
  "dispatch d c = Inr (events, d') \<Longrightarrow>
     \<exists>new_state. state_transition (disp_state_manager d) (current_state (disp_state_manager d)) c
          = Some (new_state, events) \<and>
       disp_state_manager d' = (disp_state_manager d)\<lparr>current_state := Some new_state\<rparr> \<and>
       state_changes (disp_storage d') =
         state_changes (disp_storage d) @ [(enat (Suc (statechange_ulids_issued (disp_storage d))), c)] \<and>
       snapshots (disp_storage d') = snapshots (disp_storage d) \<and>
       statechange_ulids_issued (disp_storage d') = Suc (statechange_ulids_issued (disp_storage d)) \<and>
       last_state_change_id d' = Some (enat (Suc (statechange_ulids_issued (disp_storage d))))"
  by (auto simp add: dispatch_def sm_dispatch_def split: option.splits prod.splits
      dest!: write_state_change_and_events_eq)

lemma run_body_nothing_dispatched:
  "run_body body d = (outcome, d') \<Longrightarrow> dispatched body d = [] \<Longrightarrow> d' = d"
  by (induction body arbitrary: d) (auto split: sum.splits)

lemma run_body_last_dispatched:
  "run_body body d = (outcome, d') \<Longrightarrow> dispatched body d \<noteq> [] \<Longrightarrow>
     \<exists>ident current. last_state_change_id d' = Some ident \<and>
       current_state (disp_state_manager d') = Some current \<and>
       last (state_changes (disp_storage d')) = (ident, last (dispatched body d))"
proof (induction body arbitrary: d)
  case (Dispatch c k)
  from Dispatch.prems(2) obtain events d1 where d1: "dispatch d c = Inr (events, d1)"
    by (auto split: sum.splits)
  from Dispatch.prems(1) d1 have run: "run_body (k events) d1 = (outcome, d')"
    by simp
  show ?case
  proof (cases "dispatched (k events) d1 = []")
    case True
    with run have "d' = d1" by (rule run_body_nothing_dispatched)
    with dispatch_Inr [OF d1] True d1 show ?thesis by auto
  next
    case False
    with Dispatch.IH [of "k events" d1] run d1 show ?thesis by simp
  qed
qed simp_all

text \<open>
  C6. When the transition function accepts the state change, \<open>dispatch\<close> returns the
  events it produced; the dispatcher's state manager holds the new state; the state
  change is appended to the storage under the identifier the factory issues for it,
  the successor of the number of identifiers issued before; every produced event is
  appended, in order, tagged with that identifier; the snapshots are untouched; and
  that identifier is recorded as the latest of the scope.
\<close>

theorem dispatch_applies_writes_and_records:
  assumes "state_transition (disp_state_manager self) (current_state (disp_state_manager self))
             state_change = Some (new_state, events)"
  shows "\<exists>self'. dispatch self state_change = Inr (events, self') \<and>
     disp_state_manager self' = (disp_state_manager self)\<lparr>current_state := Some new_state\<rparr> \<and>
     state_changes (disp_storage self') =
       state_changes (disp_storage self) @
         [(enat (Suc (statechange_ulids_issued (disp_storage self))), state_change)] \<and>
     map snd (state_events (disp_storage self')) =
       map snd (state_events (disp_storage self)) @
         map (\<lambda>event. (enat (Suc (statechange_ulids_issued (disp_storage self))), event)) events \<and>
     snapshots (disp_storage self') = snapshots (disp_storage self) \<and>
     last_state_change_id self' =
       Some (enat (Suc (statechange_ulids_issued (disp_storage self))))"
proof -
  obtain ident storage' where w:
    "write_state_change_and_events (disp_storage self) state_change events = (ident, storage')"
    by (cases "write_state_change_and_events (disp_storage self) state_change events")
  note facts = write_state_change_and_events_eq [OF w]
  have "dispatch self state_change =
     Inr (events, self\<lparr>disp_state_manager := (disp_state_manager self)\<lparr>current_state := Some new_state\<rparr>,
                        disp_storage := storage', last_state_change_id := Some ident\<rparr>)"
    using assms w by (simp add: dispatch_def sm_dispatch_def)
  then show ?thesis using facts by simp
qed

theorem dispatch_applies_writes_and_records_witness:
  "state_transition (disp_state_manager demo_dispatcher)
     (current_state (disp_state_manager demo_dispatcher)) 5 = Some (5, [5]) \<and>
   (\<exists>self'. dispatch demo_dispatcher 5 = Inr ([5], self') \<and>
      disp_state_manager self' = (disp_state_manager demo_dispatcher)\<lparr>current_state := Some 5\<rparr> \<and>
      state_changes (disp_storage self') = [(enat 1, 5)] \<and>
      map snd (state_events (disp_storage self')) = [(enat 1, 5)] \<and>
      snapshots (disp_storage self') = [] \<and>
      last_state_change_id self' = Some (enat 1))"
proof -
  have h: "state_transition (disp_state_manager demo_dispatcher)
     (current_state (disp_state_manager demo_dispatcher)) 5 = Some (5, [5])"
    by (simp add: demo_defs)
  from dispatch_applies_writes_and_records [OF h] h show ?thesis
    by (simp add: demo_defs)
qed

subsection \<open>Commit scopes\<close>

text \<open>
  C1. When the body of a commit scope stops with an error, raised by the body itself
  or by a \<open>dispatch\<close> it made, \<open>process_state_change_atomically\<close> raises that error,
  and the log's state manager, its saved state and the three tables of the storage are
  what they were before the scope; the scope's state manager is dropped with the
  dispatcher.
\<close>

theorem process_state_change_atomically_rolls_back:
  assumes "fst (run_body body (scope_dispatcher self)) = Some err"
  shows "\<exists>self'. process_state_change_atomically self body = (Some err, self') \<and>
     wal_state_manager self' = wal_state_manager self \<and>
     saved_state self' = saved_state self \<and>
     state_changes (wal_storage self') = state_changes (wal_storage self) \<and>
     state_events (wal_storage self') = state_events (wal_storage self) \<and>
     snapshots (wal_storage self') = snapshots (wal_storage self)"
proof -
  obtain d where "run_body body (scope_dispatcher self) = (Some err, d)"
    using assms by (cases "run_body body (scope_dispatcher self)") simp
  then show ?thesis
    by (simp add: process_state_change_atomically_def scope_failed_def transaction_rollback_def)
qed

theorem process_state_change_atomically_rolls_back_witness:
  "fst (run_body (dispatch_all [5, 0]) (scope_dispatcher demo_log)) = Some TransitionFailure \<and>
   state_changes (disp_storage (snd (run_body (dispatch_all [5, 0]) (scope_dispatcher demo_log))))
     = [(enat 1, 5)] \<and>
   (\<exists>self'. process_state_change_atomically demo_log (dispatch_all [5, 0]) =
        (Some TransitionFailure, self') \<and>
     wal_state_manager self' = wal_state_manager demo_log \<and>
     saved_state self' = None \<and>
     state_changes (wal_storage self') = [] \<and>
     state_events (wal_storage self') = [] \<and>
     snapshots (wal_storage self') = [])"
proof -
  have h: "fst (run_body (dispatch_all [5, 0]) (scope_dispatcher demo_log)) = Some TransitionFailure"
    by (simp add: demo_defs)
  have w: "state_changes (disp_storage (snd (run_body (dispatch_all [5, 0])
      (scope_dispatcher demo_log)))) = [(enat 1, 5)]"
    by (simp add: demo_defs)
  from process_state_change_atomically_rolls_back [OF h] h w show ?thesis
    by (simp add: demo_log_def demo_storage_def WriteAheadLog_init_def)
qed

text \<open>
  C2. When the body of a commit scope completes, \<open>process_state_change_atomically\<close>
  returns normally, the storage keeps everything the scope wrote and the scope's state
  manager becomes the log's. If the body dispatched at least one state change, the
  saved state becomes the pair of the identifier under which the last dispatched state
  change was stored and the current state of the scope's state manager; if it
  dispatched none, the saved state is what it was.
\<close>

theorem process_state_change_atomically_commits:
  assumes "run_body body (scope_dispatcher self) = (None, dispatcher)"
  shows "\<exists>self'. process_state_change_atomically self body = (None, self') \<and>
     wal_storage self' = disp_storage dispatcher \<and>
     wal_state_manager self' = disp_state_manager dispatcher \<and>
     (dispatched body (scope_dispatcher self) \<noteq> [] \<longrightarrow>
        (\<exists>ident current.
           saved_state self' = Some \<lparr>state_change_id = ident, state = current\<rparr> \<and>
           current_state (disp_state_manager dispatcher) = Some current \<and>
           last (state_changes (disp_storage dispatcher)) =
             (ident, last (dispatched body (scope_dispatcher self))))) \<and>
     (dispatched body (scope_dispatcher self) = [] \<longrightarrow> saved_state self' = saved_state self)"
proof (cases "dispatched body (scope_dispatcher self) = []")
  case True
  with assms have "dispatcher = scope_dispatcher self"
    by (rule run_body_nothing_dispatched)
  with assms True show ?thesis
    by (simp add: process_state_change_atomically_def scope_completed_def
        scope_dispatcher_def transaction_commit_def)
next
  case False
  from run_body_last_dispatched [OF assms False]
  obtain ident current where
    "last_state_change_id dispatcher = Some ident"
    "current_state (disp_state_manager dispatcher) = Some current"
    "last (state_changes (disp_storage dispatcher)) =
       (ident, last (dispatched body (scope_dispatcher self)))"
    by blast
  with assms False show ?thesis
    by (simp add: process_state_change_atomically_def scope_completed_def
        transaction_commit_def)
qed

theorem process_state_change_atomically_commits_witness:
  "run_body (dispatch_all [5, 2]) (scope_dispatcher demo_log) = (None, demo_committed) \<and>
   dispatched (dispatch_all [5, 2]) (scope_dispatcher demo_log) = [5, 2] \<and>
   process_state_change_atomically demo_log (dispatch_all [5, 2]) =
     (None, \<lparr>wal_state_manager = disp_state_manager demo_committed,
             wal_storage = disp_storage demo_committed,
             saved_state = Some \<lparr>state_change_id = enat 2, state = 7\<rparr>\<rparr>) \<and>
   run_body Done (scope_dispatcher demo_log) = (None, scope_dispatcher demo_log) \<and>
   dispatched Done (scope_dispatcher demo_log) = [] \<and>
   process_state_change_atomically demo_log Done = (None, demo_log)"
proof -
  have run: "run_body (dispatch_all [5, 2]) (scope_dispatcher demo_log) = (None, demo_committed)"
    by (simp add: demo_defs demo_committed_def)
  have some: "dispatched (dispatch_all [5, 2]) (scope_dispatcher demo_log) = [5, 2]"
    by (simp add: demo_defs)
  have run0: "run_body Done (scope_dispatcher demo_log) = (None, scope_dispatcher demo_log)"
    by simp
  have none: "dispatched Done (scope_dispatcher demo_log) = []"
    by simp
  from process_state_change_atomically_commits [OF run] some
  have a: "process_state_change_atomically demo_log (dispatch_all [5, 2]) =
     (None, \<lparr>wal_state_manager = disp_state_manager demo_committed,
             wal_storage = disp_storage demo_committed,
             saved_state = Some \<lparr>state_change_id = enat 2, state = 7\<rparr>\<rparr>)"
    by (auto simp add: demo_committed_def)
  from process_state_change_atomically_commits [OF run0] none
  have b: "process_state_change_atomically demo_log Done = (None, demo_log)"
    by (auto simp add: demo_log_def WriteAheadLog_init_def scope_dispatcher_def sm_copy_def)
  from run some run0 none a b show ?thesis by simp
qed

subsection \<open>Snapshots\<close>

text \<open>
  C3. On a log that has just been constructed, so that no state change has ever been
  committed, \<open>snapshot\<close> raises \<open>AttributeError\<close>: the read of \<^verbatim>\<open>saved_state\<close> on
  line 249 comes before the test of line 252 that was to make the call do nothing.
\<close>

theorem snapshot_on_new_log_raises:
  "snapshot (WriteAheadLog_init state_manager storage) statechange_qty =
     (Some AttributeError, WriteAheadLog_init state_manager storage)"
  by (simp add: snapshot_def WriteAheadLog_init_def)

lemma process_outcome:
  assumes "process_state_change_atomically self body = (outcome, self')"
  shows "(saved_state self' = saved_state self \<and> wal_state_manager self' = wal_state_manager self) \<or>
     (outcome = None \<and> dispatched body (scope_dispatcher self) \<noteq> [] \<and>
      (\<exists>saved. saved_state self' = Some saved \<and>
         current_state (wal_state_manager self') = Some (state saved)))"
proof (cases "run_body body (scope_dispatcher self)")
  case (Pair r d)
  show ?thesis
  proof (cases r)
    case (Some err)
    with Pair assms show ?thesis
      by (auto simp add: process_state_change_atomically_def scope_failed_def)
  next
    case None
    show ?thesis
    proof (cases "dispatched body (scope_dispatcher self) = []")
      case True
      with Pair None have "d = scope_dispatcher self"
        using run_body_nothing_dispatched by blast
      with Pair None assms show ?thesis
        by (auto simp add: process_state_change_atomically_def scope_completed_def
            scope_dispatcher_def sm_copy_def)
    next
      case False
      from run_body_last_dispatched [OF Pair False] Pair None False assms show ?thesis
        by (auto simp add: process_state_change_atomically_def scope_completed_def)
    qed
  qed
qed

lemma snapshot_keeps:
  "saved_state (snd (snapshot self qty)) = saved_state self"
  "wal_state_manager (snd (snapshot self qty)) = wal_state_manager self"
  by (simp_all add: snapshot_def Let_def split: option.splits bool.splits)

lemma saved_in_step_process:
  "saved_in_step self \<Longrightarrow> saved_in_step (snd (process_state_change_atomically self body))"
  using process_outcome [of self body "fst (process_state_change_atomically self body)"
      "snd (process_state_change_atomically self body)"]
  by (auto simp add: saved_in_step_def split: option.splits)

lemma saved_in_step_snapshot:
  "saved_in_step self \<Longrightarrow> saved_in_step (snd (snapshot self qty))"
  by (simp add: saved_in_step_def snapshot_keeps split: option.splits)

lemma saved_in_step_run_calls:
  "saved_in_step self \<Longrightarrow> saved_in_step (run_calls self calls)"
  by (induction self calls rule: run_calls.induct)
    (simp_all add: saved_in_step_process saved_in_step_snapshot)

lemma snapshot_in_step:
  "saved_state self = Some saved \<Longrightarrow> saved_in_step self \<Longrightarrow>
     snapshot self qty =
       (None, self\<lparr>wal_storage :=
          write_state_snapshot (wal_storage self) (state saved) (state_change_id saved) qty\<rparr>)"
  by (simp add: snapshot_def saved_in_step_def ulid_truthy_def)

text \<open>
  C10. The constructor leaves \<^verbatim>\<open>saved_state\<close> unset. While it is unset, \<open>snapshot\<close>
  raises \<open>AttributeError\<close> and changes nothing, and \<open>snapshot\<close> never assigns it. A
  commit scope that finds it unset and leaves it set has completed normally and has
  dispatched at least one state change. On a log reached from the constructor by any
  sequence of commit scopes and snapshots, once \<^verbatim>\<open>saved_state\<close> is set the state
  manager's current state is the saved state's state, and \<open>snapshot\<close> appends a
  snapshot of it under the saved identifier and the given count.
\<close>

theorem saved_state_unset_until_first_commit:
  "saved_state (WriteAheadLog_init state_manager storage) = None \<and>
   (saved_state self = None \<longrightarrow> snapshot self qty = (Some AttributeError, self)) \<and>
   saved_state (snd (snapshot self qty)) = saved_state self \<and>
   (saved_state self = None \<and>
    saved_state (snd (process_state_change_atomically self body)) \<noteq> None \<longrightarrow>
      fst (process_state_change_atomically self body) = None \<and>
      dispatched body (scope_dispatcher self) \<noteq> []) \<and>
   (\<forall>saved. saved_state (run_calls (WriteAheadLog_init state_manager storage) calls) = Some saved
      \<longrightarrow> current_state (wal_state_manager
             (run_calls (WriteAheadLog_init state_manager storage) calls)) = Some (state saved) \<and>
          snapshot (run_calls (WriteAheadLog_init state_manager storage) calls) qty =
            (None, (run_calls (WriteAheadLog_init state_manager storage) calls)
               \<lparr>wal_storage := write_state_snapshot
                  (wal_storage (run_calls (WriteAheadLog_init state_manager storage) calls))
                  (state saved) (state_change_id saved) qty\<rparr>))"
proof (intro conjI impI allI)
  show "saved_state (WriteAheadLog_init state_manager storage) = None"
    by (simp add: WriteAheadLog_init_def)
next
  assume "saved_state self = None"
  then show "snapshot self qty = (Some AttributeError, self)"
    by (simp add: snapshot_def)
next
  show "saved_state (snd (snapshot self qty)) = saved_state self"
    by (simp add: snapshot_keeps)
next
  assume a: "saved_state self = None \<and>
    saved_state (snd (process_state_change_atomically self body)) \<noteq> None"
  from process_outcome [of self body "fst (process_state_change_atomically self body)"
      "snd (process_state_change_atomically self body)"] a
  have "fst (process_state_change_atomically self body) = None \<and>
      dispatched body (scope_dispatcher self) \<noteq> []"
    by auto
  then show "fst (process_state_change_atomically self body) = None"
    and "dispatched body (scope_dispatcher self) \<noteq> []"
    by simp_all
next
  fix saved
  assume s: "saved_state (run_calls (WriteAheadLog_init state_manager storage) calls) = Some saved"
  have "saved_in_step (WriteAheadLog_init state_manager storage)"
    by (simp add: saved_in_step_def WriteAheadLog_init_def)
  then have inv: "saved_in_step (run_calls (WriteAheadLog_init state_manager storage) calls)"
    by (rule saved_in_step_run_calls)
  from inv s show "current_state (wal_state_manager
      (run_calls (WriteAheadLog_init state_manager storage) calls)) = Some (state saved)"
    by (simp add: saved_in_step_def)
  from s inv show "snapshot (run_calls (WriteAheadLog_init state_manager storage) calls) qty =
            (None, (run_calls (WriteAheadLog_init state_manager storage) calls)
               \<lparr>wal_storage := write_state_snapshot
                  (wal_storage (run_calls (WriteAheadLog_init state_manager storage) calls))
                  (state saved) (state_change_id saved) qty\<rparr>)"
    by (rule snapshot_in_step)
qed

theorem saved_state_unset_until_first_commit_witness:
  "saved_state demo_log = None \<and>
   snapshot demo_log 2 = (Some AttributeError, demo_log) \<and>
   saved_state (snd (process_state_change_atomically demo_log (dispatch_all [5, 2]))) \<noteq> None \<and>
   fst (process_state_change_atomically demo_log (dispatch_all [5, 2])) = None \<and>
   dispatched (dispatch_all [5, 2]) (scope_dispatcher demo_log) \<noteq> [] \<and>
   saved_state (run_calls demo_log demo_calls) = Some \<lparr>state_change_id = enat 3, state = 7\<rparr> \<and>
   current_state (wal_state_manager (run_calls demo_log demo_calls)) = Some 7 \<and>
   snapshots (wal_storage (snd (snapshot (run_calls demo_log demo_calls) 2))) =
     [\<lparr>data = 7, state_change_identifier = enat 3, state_change_qty = 2\<rparr>]"
proof -
  note inst = saved_state_unset_until_first_commit
    [of "\<lparr>state_transition = demo_transition, current_state = None\<rparr>" demo_storage
       demo_log 2 "dispatch_all [5, 2]" demo_calls, folded demo_log_def]
  have unset: "saved_state demo_log = None"
    by (simp add: demo_log_def WriteAheadLog_init_def)
  have assigned:
    "saved_state (snd (process_state_change_atomically demo_log (dispatch_all [5, 2]))) \<noteq> None"
    by (simp add: demo_defs)
  have saved: "saved_state (run_calls demo_log demo_calls) =
      Some \<lparr>state_change_id = enat 3, state = 7\<rparr>"
    by (simp add: demo_calls_def demo_defs)
  have rows: "snapshots (wal_storage (run_calls demo_log demo_calls)) = []"
    by (simp add: demo_calls_def demo_defs)
  from inst unset have a: "snapshot demo_log 2 = (Some AttributeError, demo_log)"
    by blast
  from inst unset assigned
  have b: "fst (process_state_change_atomically demo_log (dispatch_all [5, 2])) = None \<and>
      dispatched (dispatch_all [5, 2]) (scope_dispatcher demo_log) \<noteq> []"
    by blast
  from inst saved
  have c: "current_state (wal_state_manager (run_calls demo_log demo_calls)) = Some 7 \<and>
      snapshot (run_calls demo_log demo_calls) 2 =
        (None, (run_calls demo_log demo_calls)
           \<lparr>wal_storage := write_state_snapshot (wal_storage (run_calls demo_log demo_calls))
              7 (enat 3) 2\<rparr>)"
    by simp
  from unset a assigned b saved c rows show ?thesis
    by (simp add: write_state_snapshot_def)
qed

subsection \<open>Interleaved commit scopes\<close>

lemma run_calls_append:
  "run_calls self (calls @ [Scope body]) =
     snd (process_state_change_atomically (run_calls self calls) body)"
  by (induction self calls rule: run_calls.induct) simp_all

lemma serial_base_snoc:
  "serial_base self bodies (order @ [i]) =
     snd (process_state_change_atomically (serial_base self bodies order) (bodies i))"
  by (simp add: serial_base_def run_calls_append)

lemma ordered_store_dispatch:
  assumes "dispatch d c = Inr (events, d')" and "ordered_store (disp_storage d)"
  shows "ordered_store (disp_storage d') \<and>
    statechange_ulids_issued (disp_storage d) \<le> statechange_ulids_issued (disp_storage d')"
proof -
  from dispatch_Inr [OF assms(1)] have
    rows: "state_changes (disp_storage d') = state_changes (disp_storage d) @
       [(enat (Suc (statechange_ulids_issued (disp_storage d))), c)]"
    and issued: "statechange_ulids_issued (disp_storage d') =
       Suc (statechange_ulids_issued (disp_storage d))"
    by auto
  from assms(2) have "\<forall>row \<in> set (state_changes (disp_storage d)).
      fst row \<le> enat (statechange_ulids_issued (disp_storage d))"
    by (simp add: ordered_store_def list_all_iff)
  then have below: "\<forall>row \<in> set (state_changes (disp_storage d)).
      fst row < enat (Suc (statechange_ulids_issued (disp_storage d)))"
    by (auto intro: le_less_trans)
  with assms(2) rows issued show ?thesis
    by (auto simp add: ordered_store_def list_all_iff sorted_wrt_append)
qed

lemma ordered_store_rollback:
  "ordered_store at_begin \<Longrightarrow>
   statechange_ulids_issued at_begin \<le> statechange_ulids_issued now \<Longrightarrow>
     ordered_store (transaction_rollback at_begin now)"
  by (auto simp add: ordered_store_def transaction_rollback_def list_all_iff
      intro: order_trans)

lemma scope_completed_storage_irrelevant:
  "scope_completed (self\<lparr>wal_storage := anything\<rparr>) dispatcher = scope_completed self dispatcher"
  by (simp add: scope_completed_def)

lemma scope_failed_storage_irrelevant:
  "scope_failed (self\<lparr>wal_storage := anything\<rparr>) at_begin dispatcher =
     scope_failed self at_begin dispatcher"
  by (simp add: scope_failed_def)

lemma scope_completed_storage:
  "wal_storage (snd (scope_completed self dispatcher)) = disp_storage dispatcher"
  by (simp add: scope_completed_def transaction_commit_def Let_def split: option.splits)

lemma serial_inv_start:
  "ordered_store (wal_storage self) \<Longrightarrow> serial_inv self bodies (start_system self bodies) []"
  by (simp add: serial_inv_def start_system_def serial_base_def)

lemma serial_invI:
  assumes "distinct order"
    and "\<And>i. i \<in> set order \<longleftrightarrow> returned (tasks sys i)"
    and "ordered_store (wal_storage (wal sys))"
    and "\<And>i body. tasks sys i = Waiting body \<Longrightarrow> body = bodies i"
    and "\<And>i dispatcher rest at_begin. tasks sys i = InScope dispatcher rest at_begin \<Longrightarrow>
        lock_held sys \<and>
        at_begin = wal_storage (serial_base self bodies order) \<and>
        ordered_store at_begin \<and>
        statechange_ulids_issued at_begin \<le> statechange_ulids_issued (wal_storage (wal sys)) \<and>
        wal sys = (serial_base self bodies order)\<lparr>wal_storage := wal_storage (wal sys)\<rparr> \<and>
        run_body rest (dispatcher\<lparr>disp_storage := wal_storage (wal sys)\<rparr>) =
          run_body (bodies i) (scope_dispatcher (serial_base self bodies order)) \<and>
        (\<forall>j. j \<noteq> i \<longrightarrow> \<not> in_scope (tasks sys j))"
    and "\<not> lock_held sys \<Longrightarrow>
        wal sys = serial_base self bodies order \<and> (\<forall>i. \<not> in_scope (tasks sys i))"
  shows "serial_inv self bodies sys order"
  unfolding serial_inv_def using assms by blast

lemma serial_invD:
  assumes "serial_inv self bodies sys order"
  shows "distinct order"
    and "\<And>i. i \<in> set order \<longleftrightarrow> returned (tasks sys i)"
    and "ordered_store (wal_storage (wal sys))"
    and "\<And>i body. tasks sys i = Waiting body \<Longrightarrow> body = bodies i"
    and "\<And>i dispatcher rest at_begin. tasks sys i = InScope dispatcher rest at_begin \<Longrightarrow>
        lock_held sys \<and>
        at_begin = wal_storage (serial_base self bodies order) \<and>
        ordered_store at_begin \<and>
        statechange_ulids_issued at_begin \<le> statechange_ulids_issued (wal_storage (wal sys)) \<and>
        wal sys = (serial_base self bodies order)\<lparr>wal_storage := wal_storage (wal sys)\<rparr> \<and>
        run_body rest (dispatcher\<lparr>disp_storage := wal_storage (wal sys)\<rparr>) =
          run_body (bodies i) (scope_dispatcher (serial_base self bodies order)) \<and>
        (\<forall>j. j \<noteq> i \<longrightarrow> \<not> in_scope (tasks sys j))"
    and "\<not> lock_held sys \<Longrightarrow>
        wal sys = serial_base self bodies order \<and> (\<forall>i. \<not> in_scope (tasks sys i))"
  using assms unfolding serial_inv_def by blast+

lemma serial_inv_enter:
  assumes inv: "serial_inv self bodies sys order" and w: "tasks sys i = Waiting body"
  shows "serial_inv self bodies (enter_scope sys i body) order"
proof (cases "lock_held sys")
  case True
  with inv show ?thesis by (simp add: enter_scope_def)
next
  case False
  note d = serial_invD [OF inv]
  from d(6) False have base: "wal sys = serial_base self bodies order"
    and free: "\<And>j. \<not> in_scope (tasks sys j)"
    by simp_all
  from d(4) w have body: "body = bodies i" by simp
  let ?sys = "sys\<lparr>lock_held := True,
      tasks := (tasks sys)(i := InScope (scope_dispatcher (wal sys)) body (wal_storage (wal sys)))\<rparr>"
  have "serial_inv self bodies ?sys order"
  proof (rule serial_invI)
    show "distinct order" by (rule d(1))
  next
    fix j show "j \<in> set order \<longleftrightarrow> returned (tasks ?sys j)"
      using d(2) [of j] w by (cases "j = i") simp_all
  next
    show "ordered_store (wal_storage (wal ?sys))" using d(3) by simp
  next
    fix j b assume "tasks ?sys j = Waiting b"
    then show "b = bodies j" using d(4) [of j b] by (cases "j = i") simp_all
  next
    fix j dispatcher rest at_begin
    assume t: "tasks ?sys j = InScope dispatcher rest at_begin"
    have "j = i"
    proof (rule ccontr)
      assume "j \<noteq> i"
      with t have "tasks sys j = InScope dispatcher rest at_begin" by simp
      with free [of j] show False by simp
    qed
    with t have eqs: "dispatcher = scope_dispatcher (wal sys)" "rest = body"
      "at_begin = wal_storage (wal sys)"
      by simp_all
    have others: "\<forall>k. k \<noteq> j \<longrightarrow> \<not> in_scope (tasks ?sys k)"
      using free \<open>j = i\<close> by simp
    have here: "(scope_dispatcher (wal sys))\<lparr>disp_storage := wal_storage (wal sys)\<rparr> =
        scope_dispatcher (wal sys)"
      by (simp add: scope_dispatcher_def)
    show "lock_held ?sys \<and>
        at_begin = wal_storage (serial_base self bodies order) \<and>
        ordered_store at_begin \<and>
        statechange_ulids_issued at_begin \<le> statechange_ulids_issued (wal_storage (wal ?sys)) \<and>
        wal ?sys = (serial_base self bodies order)\<lparr>wal_storage := wal_storage (wal ?sys)\<rparr> \<and>
        run_body rest (dispatcher\<lparr>disp_storage := wal_storage (wal ?sys)\<rparr>) =
          run_body (bodies j) (scope_dispatcher (serial_base self bodies order)) \<and>
        (\<forall>k. k \<noteq> j \<longrightarrow> \<not> in_scope (tasks ?sys k))"
      using eqs base [symmetric] body d(3) here others \<open>j = i\<close> by simp
  next
    assume "\<not> lock_held ?sys"
    then show "wal ?sys = serial_base self bodies order \<and> (\<forall>i. \<not> in_scope (tasks ?sys i))"
      by simp
  qed
  with False show ?thesis by (simp add: enter_scope_def)
qed

lemma serial_inv_continue:
  assumes inv: "serial_inv self bodies sys order"
    and t: "tasks sys i = InScope dispatcher rest at_begin"
    and ord: "ordered_store storage'"
    and issued: "statechange_ulids_issued (wal_storage (wal sys)) \<le>
      statechange_ulids_issued storage'"
    and run: "run_body rest' (dispatcher'\<lparr>disp_storage := storage'\<rparr>) =
      run_body rest (dispatcher\<lparr>disp_storage := wal_storage (wal sys)\<rparr>)"
  shows "serial_inv self bodies
    (sys\<lparr>wal := (wal sys)\<lparr>wal_storage := storage'\<rparr>,
         tasks := (tasks sys)(i := InScope dispatcher' rest' at_begin)\<rparr>) order"
    (is "serial_inv self bodies ?sys order")
proof (rule serial_invI)
  note d = serial_invD [OF inv]
  note mine = d(5) [OF t]
  show "distinct order" by (rule d(1))
  show "j \<in> set order \<longleftrightarrow> returned (tasks ?sys j)" for j
    using d(2) [of j] t by (cases "j = i") simp_all
  show "ordered_store (wal_storage (wal ?sys))" using ord by simp
  show "b = bodies j" if "tasks ?sys j = Waiting b" for j b
    using that d(4) [of j b] by (cases "j = i") simp_all
  show "lock_held ?sys \<and>
        a = wal_storage (serial_base self bodies order) \<and>
        ordered_store a \<and>
        statechange_ulids_issued a \<le> statechange_ulids_issued (wal_storage (wal ?sys)) \<and>
        wal ?sys = (serial_base self bodies order)\<lparr>wal_storage := wal_storage (wal ?sys)\<rparr> \<and>
        run_body r (dd\<lparr>disp_storage := wal_storage (wal ?sys)\<rparr>) =
          run_body (bodies j) (scope_dispatcher (serial_base self bodies order)) \<and>
        (\<forall>k. k \<noteq> j \<longrightarrow> \<not> in_scope (tasks ?sys k))"
    if tj: "tasks ?sys j = InScope dd r a" for j dd r a
  proof -
    have "j = i"
    proof (rule ccontr)
      assume "j \<noteq> i"
      with tj have "in_scope (tasks sys j)" by simp
      with mine \<open>j \<noteq> i\<close> show False by blast
    qed
    with tj have eqs: "dd = dispatcher'" "r = rest'" "a = at_begin" by simp_all
    from mine have lg: "wal sys = (serial_base self bodies order)\<lparr>wal_storage := wal_storage (wal sys)\<rparr>"
      by blast
    have lg': "(wal sys)\<lparr>wal_storage := storage'\<rparr> =
        (serial_base self bodies order)\<lparr>wal_storage := storage'\<rparr>"
      by (subst lg) simp
    have others: "\<forall>k. k \<noteq> j \<longrightarrow> \<not> in_scope (tasks ?sys k)"
      using mine \<open>j = i\<close> by simp
    from mine issued have le: "statechange_ulids_issued at_begin \<le> statechange_ulids_issued storage'"
      by (meson order_trans)
    from mine have a1: "lock_held sys" and a2: "at_begin = wal_storage (serial_base self bodies order)"
      and a3: "ordered_store at_begin"
      and a4: "run_body rest (dispatcher\<lparr>disp_storage := wal_storage (wal sys)\<rparr>) =
          run_body (bodies i) (scope_dispatcher (serial_base self bodies order))"
      by blast+
    show ?thesis
      using eqs a1 a2 a3 a4 le lg' run others \<open>j = i\<close> by simp
  qed
  show "wal ?sys = serial_base self bodies order \<and> (\<forall>i. \<not> in_scope (tasks ?sys i))"
    if "\<not> lock_held ?sys"
    using that mine by simp
qed

lemma serial_inv_leave:
  assumes inv: "serial_inv self bodies sys order"
    and t: "tasks sys i = InScope dispatcher rest at_begin"
    and ord: "ordered_store (wal_storage (snd result))"
    and result: "process_state_change_atomically (serial_base self bodies order) (bodies i)
      = result"
  shows "serial_inv self bodies (leave_scope sys i result) (order @ [i])"
    (is "serial_inv self bodies ?sys ?order")
proof (rule serial_invI)
  note d = serial_invD [OF inv]
  note mine = d(5) [OF t]
  from d(2) [of i] t have fresh: "i \<notin> set order" by simp
  show "distinct ?order" using d(1) fresh by simp
  show "j \<in> set ?order \<longleftrightarrow> returned (tasks ?sys j)" for j
    using d(2) [of j] by (cases "j = i") (simp_all add: leave_scope_def)
  show "ordered_store (wal_storage (wal ?sys))" using ord by (simp add: leave_scope_def)
  show "b = bodies j" if "tasks ?sys j = Waiting b" for j b
    using that d(4) [of j b] by (cases "j = i") (simp_all add: leave_scope_def)
  have nobody: "\<not> in_scope (tasks ?sys j)" for j
    using mine by (cases "j = i") (simp_all add: leave_scope_def)
  show "lock_held ?sys \<and>
        a = wal_storage (serial_base self bodies ?order) \<and>
        ordered_store a \<and>
        statechange_ulids_issued a \<le> statechange_ulids_issued (wal_storage (wal ?sys)) \<and>
        wal ?sys = (serial_base self bodies ?order)\<lparr>wal_storage := wal_storage (wal ?sys)\<rparr> \<and>
        run_body r (dd\<lparr>disp_storage := wal_storage (wal ?sys)\<rparr>) =
          run_body (bodies j) (scope_dispatcher (serial_base self bodies ?order)) \<and>
        (\<forall>k. k \<noteq> j \<longrightarrow> \<not> in_scope (tasks ?sys k))"
    if tj: "tasks ?sys j = InScope dd r a" for j dd r a
    using nobody [of j] tj by simp
  show "wal ?sys = serial_base self bodies ?order \<and> (\<forall>i. \<not> in_scope (tasks ?sys i))"
    if "\<not> lock_held ?sys"
    using nobody result by (simp add: serial_base_snoc leave_scope_def)
qed

lemma serial_inv_scope_step:
  assumes inv: "serial_inv self bodies sys order"
    and t: "tasks sys i = InScope dispatcher rest at_begin"
  shows "\<exists>order'. serial_inv self bodies (scope_step sys i dispatcher rest at_begin) order'"
proof -
  note d = serial_invD [OF inv]
  note mine = d(5) [OF t]
  let ?base = "serial_base self bodies order"
  let ?here = "dispatcher\<lparr>disp_storage := wal_storage (wal sys)\<rparr>"
  from mine have lg: "wal sys = ?base\<lparr>wal_storage := wal_storage (wal sys)\<rparr>"
    and at_begin: "at_begin = wal_storage ?base"
    and ord_begin: "ordered_store at_begin"
    and le: "statechange_ulids_issued at_begin \<le> statechange_ulids_issued (wal_storage (wal sys))"
    and run: "run_body rest ?here = run_body (bodies i) (scope_dispatcher ?base)"
    by blast+
  have completed: "scope_completed (wal sys) ?here = scope_completed ?base ?here"
    by (subst lg) (rule scope_completed_storage_irrelevant)
  have failed: "scope_failed (wal sys) at_begin ?here = scope_failed ?base (wal_storage ?base) ?here"
    unfolding at_begin by (subst lg) (rule scope_failed_storage_irrelevant)
  have ord_failed: "ordered_store (wal_storage (scope_failed ?base (wal_storage ?base) ?here))"
    using ord_begin le at_begin by (simp add: scope_failed_def ordered_store_rollback)
  have leave_failed: "serial_inv self bodies
      (leave_scope sys i (Some err, scope_failed (wal sys) at_begin ?here)) (order @ [i])"
    if "run_body rest ?here = (Some err, ?here)" for err
  proof (rule serial_inv_leave [OF inv t])
    show "ordered_store (wal_storage (snd (Some err, scope_failed (wal sys) at_begin ?here)))"
      using ord_failed failed by simp
    have "run_body (bodies i) (scope_dispatcher ?base) = (Some err, ?here)"
      using run [symmetric] that by simp
    then show "process_state_change_atomically ?base (bodies i) =
        (Some err, scope_failed (wal sys) at_begin ?here)"
      using failed by (simp add: process_state_change_atomically_def)
  qed
  show ?thesis
  proof (cases rest)
    case Done
    have "serial_inv self bodies (leave_scope sys i (scope_completed (wal sys) ?here)) (order @ [i])"
    proof (rule serial_inv_leave [OF inv t])
      show "ordered_store (wal_storage (snd (scope_completed (wal sys) ?here)))"
        using d(3) by (simp add: scope_completed_storage)
      have "run_body (bodies i) (scope_dispatcher ?base) = (None, ?here)"
        using run [symmetric] Done by simp
      then show "process_state_change_atomically ?base (bodies i) =
          scope_completed (wal sys) ?here"
        using completed by (simp add: process_state_change_atomically_def)
    qed
    with Done show ?thesis
      by (auto simp add: scope_step_def)
  next
    case (Raise err)
    then have "run_body rest ?here = (Some err, ?here)" by simp
    from leave_failed [OF this] Raise show ?thesis
      by (auto simp add: scope_step_def)
  next
    case (Dispatch state_change continue)
    show ?thesis
    proof (cases "dispatch ?here state_change")
      case (Inl err)
      with Dispatch have "run_body rest ?here = (Some err, ?here)" by simp
      from leave_failed [OF this] Dispatch Inl show ?thesis
        by (auto simp add: scope_step_def)
    next
      case (Inr r)
      obtain events dispatcher' where r: "r = (events, dispatcher')" by (cases r)
      from Inr r have disp: "dispatch ?here state_change = Inr (events, dispatcher')" by simp
      from ordered_store_dispatch [OF disp] d(3)
      have ord': "ordered_store (disp_storage dispatcher')"
        and le': "statechange_ulids_issued (wal_storage (wal sys)) \<le>
          statechange_ulids_issued (disp_storage dispatcher')"
        by simp_all
      have "run_body (continue events) (dispatcher'\<lparr>disp_storage := disp_storage dispatcher'\<rparr>) =
          run_body rest ?here"
        using Dispatch disp by simp
      from serial_inv_continue [OF inv t ord' le' this]
      have "serial_inv self bodies
        (sys\<lparr>wal := (wal sys)\<lparr>wal_storage := disp_storage dispatcher'\<rparr>,
             tasks := (tasks sys)(i := InScope dispatcher' (continue events) at_begin)\<rparr>) order" .
      with Dispatch disp show ?thesis
        by (auto simp add: scope_step_def)
    qed
  next
    case (LatestState continue)
    have same: "(wal sys)\<lparr>wal_storage := wal_storage (wal sys)\<rparr> = wal sys" by simp
    have "run_body (continue (latest_state ?here)) ?here = run_body rest ?here"
      using LatestState by simp
    from serial_inv_continue [OF inv t d(3) order_refl this]
    have "serial_inv self bodies
        (sys\<lparr>tasks := (tasks sys)(i := InScope dispatcher (continue (latest_state ?here))
            at_begin)\<rparr>) order"
      by (simp add: same)
    with LatestState show ?thesis
      by (auto simp add: scope_step_def)
  qed
qed

lemma serial_inv_task_step:
  assumes "serial_inv self bodies sys order"
  shows "\<exists>order'. serial_inv self bodies (task_step sys i) order'"
proof (cases "tasks sys i")
  case (Waiting body)
  with serial_inv_enter [OF assms Waiting] show ?thesis
    by (auto simp add: task_step_def)
next
  case (InScope dispatcher rest at_begin)
  with serial_inv_scope_step [OF assms InScope] show ?thesis
    by (simp add: task_step_def)
next
  case (Returned outcome)
  with assms show ?thesis
    by (auto simp add: task_step_def)
qed

lemma serial_inv_run_schedule:
  "serial_inv self bodies sys order \<Longrightarrow>
     \<exists>order'. serial_inv self bodies (run_schedule sys schedule) order'"
proof (induction schedule arbitrary: sys order)
  case Nil
  then show ?case by (auto simp add: run_schedule_def)
next
  case (Cons i schedule)
  from serial_inv_task_step [OF Cons.prems, of i]
  obtain order' where "serial_inv self bodies (task_step sys i) order'" ..
  from Cons.IH [OF this] show ?case by (simp add: run_schedule_def)
qed

lemma blocked_while_in_scope:
  assumes "serial_inv self bodies sys order" and "in_scope (tasks sys i)" and "j \<noteq> i"
  shows "lock_held sys \<and> task_step sys j = sys"
proof -
  note d = serial_invD [OF assms(1)]
  from assms(2) obtain dispatcher rest at_begin where
    t: "tasks sys i = InScope dispatcher rest at_begin"
    by (cases "tasks sys i") simp_all
  from d(5) [OF t] assms(3) have held: "lock_held sys" and out: "\<not> in_scope (tasks sys j)"
    by blast+
  from out held have "task_step sys j = sys"
    by (cases "tasks sys j") (simp_all add: task_step_def enter_scope_def)
  with held show ?thesis by simp
qed

text \<open>
  C8. Tasks open commit scopes on one log whose stored identifiers increase, and take
  their turns in any order. Then at every moment the identifiers of the stored state
  changes increase strictly along the table, in the order they were appended. While a
  task is in a commit scope the semaphore is held and a turn of any other task changes
  nothing, so that only this scope writes until it is left. And whenever the semaphore
  is free, the log and its storage are what the scopes that have returned leave when
  they run one after the other in some order: no two scopes are interleaved.
\<close>

theorem commit_scopes_ordered_and_exclusive:
  fixes self :: "('s, 'c, 'e) WriteAheadLog"
  defines "sys \<equiv> \<lambda>bodies schedule. run_schedule (start_system self bodies) schedule"
  assumes "ordered_store (wal_storage self)"
  shows "sorted_wrt (<) (map fst (state_changes (wal_storage (wal (sys bodies schedule))))) \<and>
     (\<forall>i. in_scope (tasks (sys bodies schedule) i) \<longrightarrow>
        lock_held (sys bodies schedule) \<and>
        (\<forall>j. j \<noteq> i \<longrightarrow> task_step (sys bodies schedule) j = sys bodies schedule)) \<and>
     (\<not> lock_held (sys bodies schedule) \<longrightarrow>
        (\<exists>order. distinct order \<and>
           (\<forall>i. i \<in> set order \<longleftrightarrow> returned (tasks (sys bodies schedule) i)) \<and>
           wal (sys bodies schedule) = run_calls self (map (\<lambda>i. Scope (bodies i)) order)))"
proof -
  from serial_inv_run_schedule [OF serial_inv_start [OF assms(2)], of bodies schedule]
  obtain order where inv: "serial_inv self bodies (sys bodies schedule) order"
    unfolding sys_def by blast
  note d = serial_invD [OF inv]
  from d(3) have "sorted_wrt (<) (map fst (state_changes (wal_storage (wal (sys bodies schedule)))))"
    by (simp add: ordered_store_def)
  moreover have "\<forall>i. in_scope (tasks (sys bodies schedule) i) \<longrightarrow>
        lock_held (sys bodies schedule) \<and>
        (\<forall>j. j \<noteq> i \<longrightarrow> task_step (sys bodies schedule) j = sys bodies schedule)"
  proof (intro allI impI conjI)
    fix i assume "in_scope (tasks (sys bodies schedule) i)"
    from blocked_while_in_scope [OF inv this, of "Suc i"]
    show "lock_held (sys bodies schedule)" by simp
  next
    fix i j assume "in_scope (tasks (sys bodies schedule) i)" "j \<noteq> i"
    from blocked_while_in_scope [OF inv this]
    show "task_step (sys bodies schedule) j = sys bodies schedule" by simp
  qed
  moreover have "\<not> lock_held (sys bodies schedule) \<longrightarrow>
        (\<exists>order. distinct order \<and>
           (\<forall>i. i \<in> set order \<longleftrightarrow> returned (tasks (sys bodies schedule) i)) \<and>
           wal (sys bodies schedule) = run_calls self (map (\<lambda>i. Scope (bodies i)) order))"
  proof
    assume "\<not> lock_held (sys bodies schedule)"
    with d(6) have "wal (sys bodies schedule) = serial_base self bodies order" by simp
    with d(1) d(2) show "\<exists>order. distinct order \<and>
           (\<forall>i. i \<in> set order \<longleftrightarrow> returned (tasks (sys bodies schedule) i)) \<and>
           wal (sys bodies schedule) = run_calls self (map (\<lambda>i. Scope (bodies i)) order)"
      unfolding serial_base_def by blast
  qed
  ultimately show ?thesis by blast
qed

theorem commit_scopes_ordered_and_exclusive_witness:
  "ordered_store (wal_storage demo_log) \<and>
   in_scope (tasks (run_schedule (start_system demo_log demo_bodies) (take 5 demo_turns)) 1) \<and>
   state_changes (wal_storage (wal (run_schedule (start_system demo_log demo_bodies)
     (take 5 demo_turns)))) = [(enat 1, 3)] \<and>
   lock_held (run_schedule (start_system demo_log demo_bodies) (take 5 demo_turns)) \<and>
   task_step (run_schedule (start_system demo_log demo_bodies) (take 5 demo_turns)) 0 =
     run_schedule (start_system demo_log demo_bodies) (take 5 demo_turns) \<and>
   \<not> lock_held (run_schedule (start_system demo_log demo_bodies) demo_turns) \<and>
   state_changes (wal_storage (wal (run_schedule (start_system demo_log demo_bodies)
     demo_turns))) = [(enat 2, 4), (enat 3, 5), (enat 4, 2)] \<and>
   sorted_wrt (<) (map fst (state_changes (wal_storage (wal (run_schedule
     (start_system demo_log demo_bodies) demo_turns))))) \<and>
   (\<exists>order. distinct order \<and>
      wal (run_schedule (start_system demo_log demo_bodies) demo_turns) =
        run_calls demo_log (map (\<lambda>i. Scope (demo_bodies i)) order))"
proof -
  have ord: "ordered_store (wal_storage demo_log)"
    by (simp add: ordered_store_def demo_defs)
  note mid = commit_scopes_ordered_and_exclusive [OF ord, of demo_bodies "take 5 demo_turns"]
  note final = commit_scopes_ordered_and_exclusive [OF ord, of demo_bodies demo_turns]
  have scope: "in_scope (tasks (run_schedule (start_system demo_log demo_bodies)
      (take 5 demo_turns)) 1)"
    by (simp add: demo_turns_def demo_bodies_def system_defs demo_defs)
  have rows_mid: "state_changes (wal_storage (wal (run_schedule
      (start_system demo_log demo_bodies) (take 5 demo_turns)))) = [(enat 1, 3)]"
    by (simp add: demo_turns_def demo_bodies_def system_defs demo_defs)
  have free: "\<not> lock_held (run_schedule (start_system demo_log demo_bodies) demo_turns)"
    by (simp add: demo_turns_def demo_bodies_def system_defs demo_defs)
  have rows: "state_changes (wal_storage (wal (run_schedule
      (start_system demo_log demo_bodies) demo_turns))) = [(enat 2, 4), (enat 3, 5), (enat 4, 2)]"
    by (simp add: demo_turns_def demo_bodies_def system_defs demo_defs)
  from mid scope have
    "lock_held (run_schedule (start_system demo_log demo_bodies) (take 5 demo_turns)) \<and>
     task_step (run_schedule (start_system demo_log demo_bodies) (take 5 demo_turns)) 0 =
       run_schedule (start_system demo_log demo_bodies) (take 5 demo_turns)"
    by (metis zero_neq_one)
  moreover from final free have
    "sorted_wrt (<) (map fst (state_changes (wal_storage (wal (run_schedule
       (start_system demo_log demo_bodies) demo_turns))))) \<and>
     (\<exists>order. distinct order \<and>
        wal (run_schedule (start_system demo_log demo_bodies) demo_turns) =
          run_calls demo_log (map (\<lambda>i. Scope (demo_bodies i)) order))"
    by blast
  ultimately show ?thesis
    using ord scope rows_mid free rows by blast
qed

end
